theory Spec2Isabelle
  imports Main "HOL-Library.Multiset"
begin

section \<open>Strings and errors\<close>

text \<open>
  A Go \<^verbatim>\<open>error\<close> is modelled by its message; a function whose only result is an
  \<^verbatim>\<open>error\<close> returns \<open>error option\<close> (\<open>None\<close> is \<^verbatim>\<open>nil\<close>), one with a value and an error
  returns a sum (\<open>Inl\<close> the error). \<^verbatim>\<open>fmt.Errorf("p: %s", err)\<close> is the prefix followed by
  the message.
\<close>

type_synonym error = string

text \<open>\<^verbatim>\<open>strings.HasPrefix\<close>.\<close>

definition HasPrefix :: "string \<Rightarrow> string \<Rightarrow> bool" where
  "HasPrefix s pre = (length pre \<le> length s \<and> take (length pre) s = pre)"

text \<open>
  \<^verbatim>\<open>strings.Split(s, sep)\<close> for a separator of one byte (the code only splits at
  \<^verbatim>\<open>" "\<close>): every field between separators, so the empty string gives one empty field.
\<close>

fun Split :: "string \<Rightarrow> char \<Rightarrow> string list" where
  "Split [] sep = [[]]"
| "Split (c # s) sep =
     (if c = sep then [] # Split s sep
      else (case Split s sep of
              [] \<Rightarrow> [[c]]
            | field # fields \<Rightarrow> (c # field) # fields))"

text \<open>
  \<^verbatim>\<open>strings.SplitN(s, sep, n)\<close> for a separator of one byte and \<open>n \<ge> 0\<close>: no field for
  \<open>n = 0\<close>, otherwise at most \<open>n\<close> fields, the last one the unsplit remainder.
\<close>

fun SplitN :: "string \<Rightarrow> char \<Rightarrow> nat \<Rightarrow> string list" where
  "SplitN s sep 0 = []"
| "SplitN s sep (Suc 0) = [s]"
| "SplitN s sep (Suc (Suc n)) =
     (if sep \<in> set s
      then takeWhile (\<lambda>c. c \<noteq> sep) s
             # SplitN (tl (dropWhile (\<lambda>c. c \<noteq> sep) s)) sep (Suc n)
      else [s])"

text \<open>The verb \<^verbatim>\<open>%d\<close> of \<^verbatim>\<open>fmt.Sprintf\<close> on an \<^verbatim>\<open>int\<close>: decimal digits, with a sign if negative.\<close>

definition digitChar :: "nat \<Rightarrow> char" where
  "digitChar d = char_of (48 + d)"

fun digits :: "nat \<Rightarrow> string" where
  "digits n = (if n < 10 then [digitChar n] else digits (n div 10) @ [digitChar (n mod 10)])"

declare digits.simps [simp del]

definition formatInt :: "int \<Rightarrow> string" where
  "formatInt i = (if i < 0 then CHR ''-'' # digits (nat (- i)) else digits (nat i))"

section \<open>The data read by the NAT worker\<close>

text \<open>
  The rows of \<^verbatim>\<open>db.Container\<close> and \<^verbatim>\<open>db.Connection\<close>, with the fields
  \<^verbatim>\<open>minion/network/nat.go\<close> reads; \<^verbatim>\<open>stitch.PublicInternetLabel\<close> is the constant of
  package \<^verbatim>\<open>stitch\<close>.
\<close>

record Container =
  IP :: string
  Labels :: "string list"

record Connection =
  From :: string
  To :: string
  MinPort :: int
  MaxPort :: int

definition PublicInternetLabel :: string where
  "PublicInternetLabel = ''public''"

section \<open>The firewall adapter\<close>

text \<open>
  \<^verbatim>\<open>IPTables\<close> is an interface: an implementation is any four functions over a state
  \<open>'s\<close> of its own. Every call the code makes is recorded, with the error it returned,
  in a log that is threaded with the state, so that the order and number of calls can
  be stated.
\<close>

record 's IPTables =
  Append :: "string \<Rightarrow> string \<Rightarrow> string list \<Rightarrow> 's \<Rightarrow> error option \<times> 's"
  AppendUnique :: "string \<Rightarrow> string \<Rightarrow> string list \<Rightarrow> 's \<Rightarrow> error option \<times> 's"
  Delete :: "string \<Rightarrow> string \<Rightarrow> string list \<Rightarrow> 's \<Rightarrow> error option \<times> 's"
  ListRules :: "string \<Rightarrow> string \<Rightarrow> 's \<Rightarrow> (error + string list) \<times> 's"

datatype call =
    CallAppend string string "string list"
  | CallAppendUnique string string "string list"
  | CallDelete string string "string list"
  | CallList string string

type_synonym 's world = "(call \<times> error option) list \<times> 's"

definition callAppend ::
  "'s IPTables \<Rightarrow> string \<Rightarrow> string \<Rightarrow> string list \<Rightarrow> 's world \<Rightarrow> error option \<times> 's world" where
  "callAppend ipt tbl chn spec w =
     (case Append ipt tbl chn spec (snd w) of
        (err, s') \<Rightarrow> (err, (fst w @ [(CallAppend tbl chn spec, err)], s')))"

definition callAppendUnique ::
  "'s IPTables \<Rightarrow> string \<Rightarrow> string \<Rightarrow> string list \<Rightarrow> 's world \<Rightarrow> error option \<times> 's world" where
  "callAppendUnique ipt tbl chn spec w =
     (case AppendUnique ipt tbl chn spec (snd w) of
        (err, s') \<Rightarrow> (err, (fst w @ [(CallAppendUnique tbl chn spec, err)], s')))"

definition callDelete ::
  "'s IPTables \<Rightarrow> string \<Rightarrow> string \<Rightarrow> string list \<Rightarrow> 's world \<Rightarrow> error option \<times> 's world" where
  "callDelete ipt tbl chn spec w =
     (case Delete ipt tbl chn spec (snd w) of
        (err, s') \<Rightarrow> (err, (fst w @ [(CallDelete tbl chn spec, err)], s')))"

definition callList ::
  "'s IPTables \<Rightarrow> string \<Rightarrow> string \<Rightarrow> 's world \<Rightarrow> (error + string list) \<times> 's world" where
  "callList ipt tbl chn w =
     (case ListRules ipt tbl chn (snd w) of
        (res, s') \<Rightarrow>
          (res, (fst w @ [(CallList tbl chn, case res of Inl err \<Rightarrow> Some err | Inr _ \<Rightarrow> None)], s')))"

section \<open>getRules\<close>

text \<open>The loop of \<^verbatim>\<open>getRules\<close> over the listing, \<open>rules\<close> being the slice built so far.\<close>

fun parseRules :: "string list \<Rightarrow> string list \<Rightarrow> error + string list" where
  "parseRules [] rules = Inr rules"
| "parseRules (r # rawRules) rules =
     (if \<not> HasPrefix r ''-A'' then parseRules rawRules rules
      else (let rSplit = SplitN r CHR '' '' 3 in
            if length rSplit \<noteq> 3 then Inl (''malformed rule: '' @ r)
            else parseRules rawRules (rules @ [rSplit ! 2])))"

definition getRules ::
  "'s IPTables \<Rightarrow> string \<Rightarrow> string \<Rightarrow> 's world \<Rightarrow> (error + string list) \<times> 's world" where
  "getRules ipt tbl chn w =
     (case callList ipt tbl chn w of
        (Inl err, w') \<Rightarrow> (Inl err, w')
      | (Inr rawRules, w') \<Rightarrow> (parseRules rawRules [], w'))"

section \<open>syncChain\<close>

text \<open>
  Modelled from the spec: \<^verbatim>\<open>join.HashJoin\<close> and \<^verbatim>\<open>join.StringSlice\<close> (package
  \<^verbatim>\<open>join\<close> of this repository) are not among the sources. The spec describes the join
  of \<^verbatim>\<open>syncChain\<close> as a set difference (a symmetric difference) over the full rule
  strings as keys: the rules of the current set that are absent from the desired set are
  to delete, the rules of the desired set that are absent from the current set are to
  add, and the rules present in both are paired and left untouched. The two slices are
  read as sets of keys, so a rule occurs once in a result however often it is listed.
  With the nil key functions of the call, a rule is its own key.
\<close>

definition HashJoin ::
  "string list \<Rightarrow> string list \<Rightarrow> (string \<times> string) list \<times> string list \<times> string list" where
  "HashJoin lSlice rSlice =
     (map (\<lambda>l. (l, l)) (remdups (filter (\<lambda>l. l \<in> set rSlice) lSlice)),
      remdups (filter (\<lambda>l. l \<notin> set rSlice) lSlice),
      remdups (filter (\<lambda>r. r \<notin> set lSlice) rSlice))"

fun deleteLoop ::
  "'s IPTables \<Rightarrow> string \<Rightarrow> string \<Rightarrow> string list \<Rightarrow> 's world \<Rightarrow> error option \<times> 's world" where
  "deleteLoop ipt tbl chn [] w = (None, w)"
| "deleteLoop ipt tbl chn (r # rulesToDel) w =
     (case callDelete ipt tbl chn (Split r CHR '' '') w of
        (Some err, w') \<Rightarrow> (Some (''iptables delete: '' @ err), w')
      | (None, w') \<Rightarrow> deleteLoop ipt tbl chn rulesToDel w')"

fun appendLoop ::
  "'s IPTables \<Rightarrow> string \<Rightarrow> string \<Rightarrow> string list \<Rightarrow> 's world \<Rightarrow> error option \<times> 's world" where
  "appendLoop ipt tbl chn [] w = (None, w)"
| "appendLoop ipt tbl chn (r # rulesToAdd) w =
     (case callAppend ipt tbl chn (Split r CHR '' '') w of
        (Some err, w') \<Rightarrow> (Some (''iptables append: '' @ err), w')
      | (None, w') \<Rightarrow> appendLoop ipt tbl chn rulesToAdd w')"

text \<open>
  \<^verbatim>\<open>syncChain\<close> with the join as a parameter: what it does with the two lists the join
  returns does not depend on how the join computes them.
\<close>

definition syncChainWith ::
  "(string list \<Rightarrow> string list \<Rightarrow> (string \<times> string) list \<times> string list \<times> string list) \<Rightarrow>
   's IPTables \<Rightarrow> string \<Rightarrow> string \<Rightarrow> string list \<Rightarrow> 's world \<Rightarrow> error option \<times> 's world" where
  "syncChainWith hashJoin ipt tbl chn target w =
     (case getRules ipt tbl chn w of
        (Inl err, w1) \<Rightarrow> (Some (''iptables get: '' @ err), w1)
      | (Inr current, w1) \<Rightarrow>
          (case hashJoin current target of
             (_, rulesToDel, rulesToAdd) \<Rightarrow>
               (case deleteLoop ipt tbl chn rulesToDel w1 of
                  (Some err, w2) \<Rightarrow> (Some err, w2)
                | (None, w2) \<Rightarrow> appendLoop ipt tbl chn rulesToAdd w2)))"

definition syncChain ::
  "'s IPTables \<Rightarrow> string \<Rightarrow> string \<Rightarrow> string list \<Rightarrow> 's world \<Rightarrow> error option \<times> 's world" where
  "syncChain = syncChainWith HashJoin"

section \<open>routingRules\<close>

text \<open>
  \<^verbatim>\<open>portsFromWeb\<close> maps a container address to a set of ports
  (\<^verbatim>\<open>map[string]map[int]struct{}\<close>). It is kept as an association list without
  repeated keys, each key with its ports without repetition. Go leaves the order in
  which \<^verbatim>\<open>range\<close> visits a map unspecified; the model visits keys and ports in the order
  of their insertion, and the theorems below speak of the rules as a set, of their
  number and of their multiplicity only.
\<close>

type_synonym portMap = "(string \<times> int list) list"

fun addPort :: "string \<Rightarrow> int \<Rightarrow> portMap \<Rightarrow> portMap" where
  "addPort ip port [] = [(ip, [port])]"
| "addPort ip port ((k, ports) # m) =
     (if k = ip then (k, if port \<in> set ports then ports else ports @ [port]) # m
      else (k, ports) # addPort ip port m)"

definition labelLoop :: "Container \<Rightarrow> Connection \<Rightarrow> portMap \<Rightarrow> portMap" where
  "labelLoop dbc conn m =
     foldl (\<lambda>m l. if To conn \<noteq> l then m else addPort (IP dbc) (MinPort conn) m) m (Labels dbc)"

definition connectionLoop :: "Container \<Rightarrow> Connection list \<Rightarrow> portMap \<Rightarrow> portMap" where
  "connectionLoop dbc connections m =
     foldl (\<lambda>m conn. if From conn \<noteq> PublicInternetLabel then m else labelLoop dbc conn m)
       m connections"

definition portsFromWeb :: "Container list \<Rightarrow> Connection list \<Rightarrow> portMap" where
  "portsFromWeb containers connections =
     foldl (\<lambda>m dbc. connectionLoop dbc connections m) [] containers"

definition protocols :: "string list" where
  "protocols = [''tcp'', ''udp'']"

definition fmtRule :: "string \<Rightarrow> string \<Rightarrow> int \<Rightarrow> string \<Rightarrow> string" where
  "fmtRule publicInterface protocol port ip =
     ''-i '' @ publicInterface @ '' -p '' @ protocol @ '' -m '' @ protocol @
     '' --dport '' @ formatInt port @ '' -j DNAT --to-destination '' @ ip @ '':'' @ formatInt port"

definition routingRules :: "string \<Rightarrow> Container list \<Rightarrow> Connection list \<Rightarrow> string list" where
  "routingRules publicInterface containers connections =
     concat (map (\<lambda>(ip, ports).
       concat (map (\<lambda>port.
         map (\<lambda>protocol. fmtRule publicInterface protocol port ip) protocols) ports))
       (portsFromWeb containers connections))"

section \<open>setDefaultRules\<close>

record rule =
  table :: string
  chain :: string
  ruleSpec :: "string list"

definition defaultRules :: "string \<Rightarrow> rule list" where
  "defaultRules publicInterface =
     [\<lparr>table = ''nat'', chain = ''INPUT'', ruleSpec = [''-j'', ''ACCEPT'']\<rparr>,
      \<lparr>table = ''nat'', chain = ''OUTPUT'', ruleSpec = [''-j'', ''ACCEPT'']\<rparr>,
      \<lparr>table = ''nat'', chain = ''POSTROUTING'',
       ruleSpec = [''-s'', ''10.0.0.0/8'', ''-o'', publicInterface, ''-j'', ''MASQUERADE'']\<rparr>]"

fun appendUniqueLoop :: "'s IPTables \<Rightarrow> rule list \<Rightarrow> 's world \<Rightarrow> error option \<times> 's world" where
  "appendUniqueLoop ipt [] w = (None, w)"
| "appendUniqueLoop ipt (r # rules) w =
     (case callAppendUnique ipt (table r) (chain r) (ruleSpec r) w of
        (Some err, w') \<Rightarrow> (Some (''iptables append: '' @ err), w')
      | (None, w') \<Rightarrow> appendUniqueLoop ipt rules w')"

definition setDefaultRules :: "'s IPTables \<Rightarrow> string \<Rightarrow> 's world \<Rightarrow> error option \<times> 's world" where
  "setDefaultRules ipt publicInterface w = appendUniqueLoop ipt (defaultRules publicInterface) w"

section \<open>getPublicInterfaceImpl\<close>

text \<open>
  The routes and links of \<^verbatim>\<open>netlink\<close>: a route has an optional destination network
  (\<^verbatim>\<open>nil\<close> for the default route) and the index of its link; a link has a name. The
  two package variables \<^verbatim>\<open>routeList\<close> and \<^verbatim>\<open>linkByIndex\<close> are parameters:
  \<open>routeList\<close> is the result of \<^verbatim>\<open>routeList(nil, 0)\<close>.
\<close>

type_synonym IPNet = "nat list \<times> nat list"

record Route =
  Dst :: "IPNet option"
  LinkIndex :: int

record Link =
  Name :: string

fun findDefaultRoute :: "Route list \<Rightarrow> Route option" where
  "findDefaultRoute [] = None"
| "findDefaultRoute (r # routes) = (if Dst r = None then Some r else findDefaultRoute routes)"

definition getPublicInterfaceImpl ::
  "error + Route list \<Rightarrow> (int \<Rightarrow> error + Link) \<Rightarrow> error + string" where
  "getPublicInterfaceImpl routeList linkByIndex =
     (case routeList of
        Inl err \<Rightarrow> Inl (''route list: '' @ err)
      | Inr routes \<Rightarrow>
          (case findDefaultRoute routes of
             None \<Rightarrow> Inl ''missing default route''
           | Some defaultRoute \<Rightarrow>
               (case linkByIndex (LinkIndex defaultRoute) of
                  Inl err \<Rightarrow> Inl (''default route missing interface: '' @ err)
                | Inr link \<Rightarrow> Inr (Name link))))"

section \<open>updateNAT and one tick of runNat\<close>

definition updateNAT ::
  "error + Route list \<Rightarrow> (int \<Rightarrow> error + Link) \<Rightarrow> 's IPTables \<Rightarrow> Container list \<Rightarrow>
   Connection list \<Rightarrow> 's world \<Rightarrow> error option \<times> 's world" where
  "updateNAT routeList linkByIndex ipt containers connections w =
     (case getPublicInterfaceImpl routeList linkByIndex of
        Inl err \<Rightarrow> (Some (''get public interface: '' @ err), w)
      | Inr publicInterface \<Rightarrow>
          (case setDefaultRules ipt publicInterface w of
             (Some err, w') \<Rightarrow> (Some err, w')
           | (None, w') \<Rightarrow>
               syncChain ipt ''nat'' ''PREROUTING''
                 (routingRules publicInterface containers connections) w'))"

text \<open>
  \<^verbatim>\<open>db.Conn\<close> is the handle on the database: the minion's own row (or an error), and
  the two selections, each returning the rows its predicate accepts (\<^verbatim>\<open>nil\<close> accepts
  every row). The body of the loop of \<^verbatim>\<open>runNat\<close>, for one tick, returns what it logs.
\<close>

datatype Role = NoRole | Worker | Master

record Minion =
  SupervisorInit :: bool
  Role :: Role

record Conn =
  MinionSelf :: "error + Minion"
  SelectFromConnection :: "(Connection \<Rightarrow> bool) option \<Rightarrow> Connection list"
  SelectFromContainer :: "(Container \<Rightarrow> bool) \<Rightarrow> Container list"

definition runNatTick ::
  "Conn \<Rightarrow> error + 's IPTables \<Rightarrow> error + Route list \<Rightarrow> (int \<Rightarrow> error + Link) \<Rightarrow>
   's world \<Rightarrow> (string \<times> error) list \<times> 's world" where
  "runNatTick conn iptablesNew routeList linkByIndex w =
     (case MinionSelf conn of
        Inl err \<Rightarrow> ([], w)
      | Inr minion \<Rightarrow>
          if \<not> SupervisorInit minion \<or> Role minion \<noteq> Worker then ([], w)
          else
            (let connections = SelectFromConnection conn None;
                 containers = SelectFromContainer conn (\<lambda>c. IP c \<noteq> '''')
             in case iptablesNew of
                  Inl err \<Rightarrow> ([(''Failed to get iptables handle'', err)], w)
                | Inr ipt \<Rightarrow>
                    (case updateNAT routeList linkByIndex ipt containers connections w of
                       (Some err, w') \<Rightarrow> ([(''Failed to update NAT rules'', err)], w')
                     | (None, w') \<Rightarrow> ([], w'))))"

section \<open>Notions used to state the properties\<close>

text \<open>
  What \<^verbatim>\<open>getRules\<close> keeps of a listed \<^verbatim>\<open>-A\<close> line: the text after its second space, that
  is, after the two tokens \<^verbatim>\<open>-A\<close> and the name of the chain.
\<close>

definition ruleArgs :: "string \<Rightarrow> string" where
  "ruleArgs r =
     tl (dropWhile (\<lambda>c. c \<noteq> CHR '' '') (tl (dropWhile (\<lambda>c. c \<noteq> CHR '' '') r)))"

text \<open>
  The pairs of an address and a port that the compiler collects: the address of a
  container and the minimum port of a connection from the public internet to one of
  the labels of that container.
\<close>

definition collectedPairs :: "Container list \<Rightarrow> Connection list \<Rightarrow> (string \<times> int) set" where
  "collectedPairs containers connections =
     {(IP dbc, MinPort conn) | dbc conn.
        dbc \<in> set containers \<and> conn \<in> set connections \<and>
        From conn = PublicInternetLabel \<and> To conn \<in> set (Labels dbc)}"

text \<open>The pairs of an address and a port held by a port map, and its being a map in
  which no address and, under an address, no port occurs twice.\<close>

definition entries :: "portMap \<Rightarrow> (string \<times> int) set" where
  "entries m = {(ip, port). \<exists>ports. (ip, ports) \<in> set m \<and> port \<in> set ports}"

definition wellFormed :: "portMap \<Rightarrow> bool" where
  "wellFormed m = (distinct (map fst m) \<and> (\<forall>(ip, ports) \<in> set m. distinct ports))"

text \<open>The second loop of \<^verbatim>\<open>routingRules\<close>, over any port map, and its inner loops for
  one address.\<close>

definition renderPorts :: "string \<Rightarrow> string \<Rightarrow> int list \<Rightarrow> string list" where
  "renderPorts pif ip ports =
     concat (map (\<lambda>port. map (\<lambda>protocol. fmtRule pif protocol port ip) protocols) ports)"

definition render :: "string \<Rightarrow> portMap \<Rightarrow> string list" where
  "render pif m = concat (map (\<lambda>(ip, ports). renderPorts pif ip ports) m)"


section \<open>Traces of the loops over adapter calls\<close>

text \<open>
  The three loops of the code that call the adapter (over the rules to delete, the
  rules to add and the default rules) stop at the first call that returns an error and
  return it under a prefix. \<open>loopTrace cs msg res new\<close> says that \<open>new\<close> is what such
  a loop over the calls \<open>cs\<close> appends to the log when it returns \<open>res\<close>: either every
  call of \<open>cs\<close> in order, each without error, and \<open>res\<close> is \<open>None\<close>; or the calls of
  \<open>cs\<close> up to some call that failed with \<open>e0\<close>, that call being the last one, and
  \<open>res\<close> is \<open>msg\<close> followed by \<open>e0\<close>.
\<close>

definition loopTrace :: "call list \<Rightarrow> string \<Rightarrow> error option \<Rightarrow> (call \<times> error option) list \<Rightarrow> bool" where
  "loopTrace cs msg res new =
     (case res of
        None \<Rightarrow> new = map (\<lambda>c. (c, None)) cs
      | Some e \<Rightarrow> \<exists>k e0. k < length cs \<and> e = msg @ e0 \<and>
                   new = map (\<lambda>c. (c, None)) (take k cs) @ [(cs ! k, Some e0)])"

section \<open>Fixtures\<close>

text \<open>\<^verbatim>\<open>strings.Join\<close> with a separator of one byte, the inverse of \<open>Split\<close>.\<close>

fun Join :: "string list \<Rightarrow> char \<Rightarrow> string" where
  "Join [] sep = []"
| "Join [a] sep = a"
| "Join (a # b # elems) sep = a @ sep # Join (b # elems) sep"

text \<open>
  An adapter in memory, of the kind a test puts in place of \<^verbatim>\<open>iptables\<close>: its state
  holds the rules of each chain, a listing is the policy line of the chain followed by
  one \<^verbatim>\<open>-A\<close> line for each rule, and deleting a rule that is not there is an error.
\<close>

type_synonym chains = "(string \<times> string list) list"

definition chainRules :: "chains \<Rightarrow> string \<Rightarrow> string list" where
  "chainRules s chn = (case map_of s chn of None \<Rightarrow> [] | Some rs \<Rightarrow> rs)"

fun setChain :: "string \<Rightarrow> string list \<Rightarrow> chains \<Rightarrow> chains" where
  "setChain chn rs [] = [(chn, rs)]"
| "setChain chn rs ((k, v) # s) =
     (if k = chn then (k, rs) # s else (k, v) # setChain chn rs s)"

definition fakeIPT :: "chains IPTables" where
  "fakeIPT =
     \<lparr>Append = (\<lambda>tbl chn spec s.
        (None, setChain chn (chainRules s chn @ [Join spec CHR '' '']) s)),
      AppendUnique = (\<lambda>tbl chn spec s.
        (None, if Join spec CHR '' '' \<in> set (chainRules s chn) then s
               else setChain chn (chainRules s chn @ [Join spec CHR '' '']) s)),
      Delete = (\<lambda>tbl chn spec s.
        if Join spec CHR '' '' \<in> set (chainRules s chn)
        then (None, setChain chn (remove1 (Join spec CHR '' '') (chainRules s chn)) s)
        else (Some ''rule does not exist'', s)),
      ListRules = (\<lambda>tbl chn s.
        (Inr ((''-P '' @ chn @ '' ACCEPT'')
              # map (\<lambda>r. ''-A '' @ chn @ '' '' @ r) (chainRules s chn)), s))\<rparr>"

text \<open>The same adapter on a host where the caller may list and add rules, not delete them.\<close>

definition readOnlyIPT :: "chains IPTables" where
  "readOnlyIPT = fakeIPT\<lparr>Delete := (\<lambda>tbl chn spec s. (Some ''Permission denied'', s))\<rparr>"

text \<open>The same adapter when every change of a rule is refused.\<close>

definition lockedIPT :: "chains IPTables" where
  "lockedIPT = fakeIPT\<lparr>AppendUnique := (\<lambda>tbl chn spec s. (Some ''Permission denied'', s))\<rparr>"

definition staleRule :: string where
  "staleRule = ''-i eth0 -p tcp -m tcp --dport 80 -j DNAT --to-destination 10.0.0.9:80''"

definition webRules :: "string list" where
  "webRules =
     [''-i eth0 -p tcp -m tcp --dport 80 -j DNAT --to-destination 10.0.0.5:80'',
      ''-i eth0 -p udp -m udp --dport 80 -j DNAT --to-destination 10.0.0.5:80'']"

definition noRules :: chains where
  "noRules = []"

text \<open>A chain that still forwards port 80 to an address no container has any more.\<close>

definition staleChains :: chains where
  "staleChains = [(''PREROUTING'', [staleRule])]"

definition internalRoute :: Route where
  "internalRoute = \<lparr>Dst = Some ([10, 0, 0, 0], [255, 0, 0, 0]), LinkIndex = 3\<rparr>"

definition firstDefault :: Route where
  "firstDefault = \<lparr>Dst = None, LinkIndex = 2\<rparr>"

definition secondDefault :: Route where
  "secondDefault = \<lparr>Dst = None, LinkIndex = 5\<rparr>"

definition hostLinks :: "int \<Rightarrow> error + Link" where
  "hostLinks i =
     (if i = 2 then Inr \<lparr>Name = ''eth0''\<rparr>
      else if i = 3 then Inr \<lparr>Name = ''quilt-int''\<rparr>
      else if i = 5 then Inr \<lparr>Name = ''eth1''\<rparr>
      else Inl ''Link not found'')"

definition webContainer :: Container where
  "webContainer = \<lparr>IP = ''10.0.0.5'', Labels = [''web'']\<rparr>"

definition webConnection :: Connection where
  "webConnection = \<lparr>From = ''public'', To = ''web'', MinPort = 80, MaxPort = 80\<rparr>"

text \<open>An adapter whose listing ends in a line cut short after the name of the chain.\<close>

definition truncatedIPT :: "chains IPTables" where
  "truncatedIPT = fakeIPT\<lparr>ListRules := (\<lambda>tbl chn s.
     (Inr [''-P '' @ chn @ '' ACCEPT'', ''-A '' @ chn @ '' -j ACCEPT'', ''-A '' @ chn], s))\<rparr>"

text \<open>
  More rows: a container with two labels, a connection to one of them, a container that
  has no address yet, a connection over a range of ports, and a database handle of an
  initialised worker whose selections filter the two tables.
\<close>

definition apiContainer :: Container where
  "apiContainer = \<lparr>IP = ''10.0.0.6'', Labels = [''api'', ''web'']\<rparr>"

definition apiConnection :: Connection where
  "apiConnection = \<lparr>From = ''public'', To = ''api'', MinPort = 443, MaxPort = 443\<rparr>"

definition unscheduled :: Container where
  "unscheduled = \<lparr>IP = '''', Labels = [''web'']\<rparr>"

definition workerDB :: "Container list \<Rightarrow> Connection list \<Rightarrow> Conn" where
  "workerDB containerTable connectionTable =
     \<lparr>MinionSelf = Inr \<lparr>SupervisorInit = True, Role = Worker\<rparr>,
      SelectFromConnection = (\<lambda>check. case check of
         None \<Rightarrow> connectionTable | Some accept \<Rightarrow> filter accept connectionTable),
      SelectFromContainer = (\<lambda>check. filter check containerTable)\<rparr>"

definition rangeConnection :: Connection where
  "rangeConnection = \<lparr>From = ''public'', To = ''web'', MinPort = 80, MaxPort = 90\<rparr>"


section \<open>The public interface resolver\<close>

lemma findDefaultRoute_first:
  "\<forall>r \<in> set pre. Dst r \<noteq> None \<Longrightarrow> Dst d = None \<Longrightarrow>
   findDefaultRoute (pre @ d # post) = Some d"
  by (induction pre) auto

lemma findDefaultRoute_none:
  "(findDefaultRoute routes = None) = (\<forall>r \<in> set routes. Dst r \<noteq> None)"
  by (induction routes) auto

text \<open>
  C10: when several routes have no destination network, the interface is that of the
  first of them in the order of the list: the result is the outcome of looking up the
  link of that route, whatever routes follow it.
\<close>

theorem getPublicInterfaceImpl_first_default_route:
  assumes "\<forall>r \<in> set pre. Dst r \<noteq> None" and "Dst d = None"
  shows "getPublicInterfaceImpl (Inr (pre @ d # post)) linkByIndex =
           (case linkByIndex (LinkIndex d) of
              Inl err \<Rightarrow> Inl (''default route missing interface: '' @ err)
            | Inr link \<Rightarrow> Inr (Name link))
         \<and> getPublicInterfaceImpl (Inr (pre @ d # post)) linkByIndex =
           getPublicInterfaceImpl (Inr (pre @ d # post')) linkByIndex"
  using assms by (simp add: getPublicInterfaceImpl_def findDefaultRoute_first)

theorem getPublicInterfaceImpl_first_default_route_witness:
  "getPublicInterfaceImpl (Inr [internalRoute, firstDefault, secondDefault]) hostLinks = Inr ''eth0''"
proof -
  have pre: "\<forall>r \<in> set [internalRoute]. Dst r \<noteq> None"
    by (simp add: internalRoute_def)
  have d: "Dst firstDefault = None"
    by (simp add: firstDefault_def)
  show ?thesis
    using getPublicInterfaceImpl_first_default_route [OF pre d, of "[secondDefault]" hostLinks]
    by (simp add: firstDefault_def hostLinks_def)
qed

text \<open>
  C7: when no route of the list has an absent destination network, \<open>updateNAT\<close>
  returns the error "missing default route" (under the prefix that \<open>updateNAT\<close> puts
  before it) and leaves the log of adapter calls and the state of the adapter as they
  were: no \<open>Append\<close>, \<open>AppendUnique\<close>, \<open>Delete\<close> or \<open>List\<close> is issued.
\<close>

theorem updateNAT_missing_default_route:
  assumes "\<forall>r \<in> set routes. Dst r \<noteq> None"
  shows "getPublicInterfaceImpl (Inr routes) linkByIndex = Inl ''missing default route''
         \<and> updateNAT (Inr routes) linkByIndex ipt containers connections w =
           (Some ''get public interface: missing default route'', w)"
proof -
  from assms have "findDefaultRoute routes = None"
    by (simp add: findDefaultRoute_none)
  then have "getPublicInterfaceImpl (Inr routes) linkByIndex = Inl ''missing default route''"
    by (simp add: getPublicInterfaceImpl_def)
  then show ?thesis
    by (simp add: updateNAT_def)
qed

theorem updateNAT_missing_default_route_witness:
  "updateNAT (Inr [internalRoute]) hostLinks fakeIPT [webContainer] [webConnection] ([], noRules) =
     (Some ''get public interface: missing default route'', ([], noRules))"
proof -
  have h: "\<forall>r \<in> set [internalRoute]. Dst r \<noteq> None"
    by (simp add: internalRoute_def)
  show ?thesis
    by (rule updateNAT_missing_default_route [OF h, THEN conjunct2])
qed

section \<open>The order of adapter calls\<close>

lemma loopTrace_Nil: "loopTrace [] msg None []"
  by (simp add: loopTrace_def)

lemma loopTrace_fail: "loopTrace (c # cs) msg (Some (msg @ e0)) [(c, Some e0)]"
  unfolding loopTrace_def by (auto intro!: exI[of _ 0])

lemma loopTrace_step: "loopTrace cs msg res new \<Longrightarrow> loopTrace (c # cs) msg res ((c, None) # new)"
  unfolding loopTrace_def
  apply (cases res)
   apply simp
  apply clarsimp
  subgoal for k e0
    by (rule exI[of _ "Suc k"]) simp
  done

lemma deleteLoop_trace:
  "\<exists>new. fst (snd (deleteLoop ipt tbl chn rs w)) = fst w @ new \<and>
     loopTrace (map (\<lambda>r. CallDelete tbl chn (Split r CHR '' '')) rs) ''iptables delete: ''
       (fst (deleteLoop ipt tbl chn rs w)) new"
proof (induction rs arbitrary: w)
  case Nil
  show ?case by (simp add: loopTrace_Nil)
next
  case (Cons r rs)
  obtain err s' where d: "Delete ipt tbl chn (Split r CHR '' '') (snd w) = (err, s')"
    by (cases "Delete ipt tbl chn (Split r CHR '' '') (snd w)")
  show ?case
  proof (cases err)
    case (Some e0)
    with d loopTrace_fail[where msg = "''iptables delete: ''"] show ?thesis
      by (simp add: callDelete_def)
  next
    case None
    let ?w1 = "(fst w @ [(CallDelete tbl chn (Split r CHR '' ''), None)], s')"
    from Cons.IH[of ?w1] obtain new where
      n: "fst (snd (deleteLoop ipt tbl chn rs ?w1)) = fst ?w1 @ new"
         "loopTrace (map (\<lambda>r. CallDelete tbl chn (Split r CHR '' '')) rs) ''iptables delete: ''
            (fst (deleteLoop ipt tbl chn rs ?w1)) new"
      by blast
    from None d n show ?thesis
      by (auto simp add: callDelete_def intro: loopTrace_step)
  qed
qed


lemma appendLoop_trace:
  "\<exists>new. fst (snd (appendLoop ipt tbl chn rs w)) = fst w @ new \<and>
     loopTrace (map (\<lambda>r. CallAppend tbl chn (Split r CHR '' '')) rs) ''iptables append: ''
       (fst (appendLoop ipt tbl chn rs w)) new"
proof (induction rs arbitrary: w)
  case Nil
  show ?case by (simp add: loopTrace_Nil)
next
  case (Cons r rs)
  obtain err s' where d: "Append ipt tbl chn (Split r CHR '' '') (snd w) = (err, s')"
    by (cases "Append ipt tbl chn (Split r CHR '' '') (snd w)")
  show ?case
  proof (cases err)
    case (Some e0)
    with d loopTrace_fail[where msg = "''iptables append: ''"] show ?thesis
      by (simp add: callAppend_def)
  next
    case None
    let ?w1 = "(fst w @ [(CallAppend tbl chn (Split r CHR '' ''), None)], s')"
    from Cons.IH[of ?w1] obtain new where
      n: "fst (snd (appendLoop ipt tbl chn rs ?w1)) = fst ?w1 @ new"
         "loopTrace (map (\<lambda>r. CallAppend tbl chn (Split r CHR '' '')) rs) ''iptables append: ''
            (fst (appendLoop ipt tbl chn rs ?w1)) new"
      by blast
    from None d n show ?thesis
      by (auto simp add: callAppend_def intro: loopTrace_step)
  qed
qed

lemma appendUniqueLoop_trace:
  "\<exists>new. fst (snd (appendUniqueLoop ipt rs w)) = fst w @ new \<and>
     loopTrace (map (\<lambda>r. CallAppendUnique (table r) (chain r) (ruleSpec r)) rs) ''iptables append: ''
       (fst (appendUniqueLoop ipt rs w)) new"
proof (induction rs arbitrary: w)
  case Nil
  show ?case by (simp add: loopTrace_Nil)
next
  case (Cons r rs)
  obtain err s' where d: "AppendUnique ipt (table r) (chain r) (ruleSpec r) (snd w) = (err, s')"
    by (cases "AppendUnique ipt (table r) (chain r) (ruleSpec r) (snd w)")
  show ?case
  proof (cases err)
    case (Some e0)
    with d loopTrace_fail[where msg = "''iptables append: ''"] show ?thesis
      by (simp add: callAppendUnique_def)
  next
    case None
    let ?w1 = "(fst w @ [(CallAppendUnique (table r) (chain r) (ruleSpec r), None)], s')"
    from Cons.IH[of ?w1] obtain new where
      n: "fst (snd (appendUniqueLoop ipt rs ?w1)) = fst ?w1 @ new"
         "loopTrace (map (\<lambda>r. CallAppendUnique (table r) (chain r) (ruleSpec r)) rs) ''iptables append: ''
            (fst (appendUniqueLoop ipt rs ?w1)) new"
      by blast
    from None d n show ?thesis
      by (auto simp add: callAppendUnique_def intro: loopTrace_step)
  qed
qed

lemma loopTrace_calls: "loopTrace cs msg res new \<Longrightarrow> map fst new = take (length new) cs"
  unfolding loopTrace_def
  by (cases res) (auto simp: comp_def take_map take_Suc_conv_app_nth min_def)

lemma loopTrace_length: "loopTrace cs msg res new \<Longrightarrow> length new \<le> length cs"
  unfolding loopTrace_def by (cases res) auto

lemma loopTrace_butlast:
  assumes "loopTrace cs msg res new" and "x \<in> set (butlast new)"
  shows "snd x = None"
proof (cases res)
  case None
  with assms(1) have "new = map (\<lambda>c. (c, None)) cs"
    by (simp add: loopTrace_def)
  moreover from assms(2) have "x \<in> set new"
    by (rule in_set_butlastD)
  ultimately show ?thesis by auto
next
  case (Some e)
  with assms(1) obtain k e0 where "new = map (\<lambda>c. (c, None)) (take k cs) @ [(cs ! k, Some e0)]"
    by (auto simp: loopTrace_def)
  then have "butlast new = map (\<lambda>c. (c, None)) (take k cs)"
    by simp
  with assms(2) show ?thesis by auto
qed

lemma loopTrace_None: "loopTrace cs msg None new \<Longrightarrow> new = map (\<lambda>c. (c, None)) cs"
  unfolding loopTrace_def by simp

lemma loopTrace_Some:
  "loopTrace cs msg (Some e) new \<Longrightarrow> new \<noteq> [] \<and> (\<exists>e0. snd (last new) = Some e0 \<and> e = msg @ e0)"
  unfolding loopTrace_def by auto


lemma getRules_cases:
  "(\<exists>e s1. ListRules ipt tbl chn (snd w) = (Inl e, s1) \<and>
       getRules ipt tbl chn w = (Inl e, (fst w @ [(CallList tbl chn, Some e)], s1)))
   \<or> (\<exists>raw s1. ListRules ipt tbl chn (snd w) = (Inr raw, s1) \<and>
       getRules ipt tbl chn w = (parseRules raw [], (fst w @ [(CallList tbl chn, None)], s1)))"
proof -
  obtain r s1 where l: "ListRules ipt tbl chn (snd w) = (r, s1)"
    by (cases "ListRules ipt tbl chn (snd w)")
  then show ?thesis
    by (cases r) (simp_all add: getRules_def callList_def)
qed

text \<open>
  C2: in every run of \<open>syncChain\<close>, whatever the join returns and whatever the adapter
  does, the calls added to the log are one \<open>List\<close>, then \<open>Delete\<close> calls only, then
  \<open>Append\<close> calls only. Every call but the last one returned no error, so that no call
  is issued after a call that failed; when the last call failed with \<open>e0\<close>, the result
  is \<open>e0\<close> under the prefix of the step that failed; when the result is \<open>nil\<close> no call
  failed; and after a failed \<open>Delete\<close> there is no \<open>Append\<close>.
\<close>

theorem syncChainWith_deletes_before_appends:
  assumes run: "syncChainWith hashJoin ipt tbl chn target w = (res, w')"
  shows "\<exists>lst dels adds.
           fst w' = fst w @ [lst] @ dels @ adds
         \<and> fst lst = CallList tbl chn
         \<and> (\<forall>x \<in> set dels. \<exists>spec. fst x = CallDelete tbl chn spec)
         \<and> (\<forall>x \<in> set adds. \<exists>spec. fst x = CallAppend tbl chn spec)
         \<and> (\<forall>x \<in> set (butlast ([lst] @ dels @ adds)). snd x = None)
         \<and> (\<forall>e0. snd (last ([lst] @ dels @ adds)) = Some e0 \<longrightarrow>
               res = Some ((if adds \<noteq> [] then ''iptables append: ''
                            else if dels \<noteq> [] then ''iptables delete: ''
                            else ''iptables get: '') @ e0))
         \<and> (res = None \<longrightarrow> (\<forall>x \<in> set ([lst] @ dels @ adds). snd x = None))
         \<and> ((\<exists>x \<in> set dels. snd x \<noteq> None) \<longrightarrow> adds = [])"
proof -
  obtain gr w1 where g: "getRules ipt tbl chn w = (gr, w1)"
    by (cases "getRules ipt tbl chn w")
  from getRules_cases[of ipt tbl chn w] g
  consider (listErr) e where "gr = Inl e" "fst w1 = fst w @ [(CallList tbl chn, Some e)]"
    | (listed) "fst w1 = fst w @ [(CallList tbl chn, None)]"
    by auto
  then show ?thesis
  proof cases
    case listErr
    with run g have "res = Some (''iptables get: '' @ e)" "w' = w1"
      by (simp_all add: syncChainWith_def)
    with listErr show ?thesis
      by (intro exI[of _ "(CallList tbl chn, Some e)"] exI[of _ "[]"]) simp
  next
    case listed
    show ?thesis
    proof (cases gr)
      case (Inl err)
      with run g have "w' = w1"
        by (simp add: syncChainWith_def)
      with listed show ?thesis
        by (intro exI[of _ "(CallList tbl chn, None)"] exI[of _ "[]"]) simp
    next
      case (Inr current)
      obtain ps rulesToDel rulesToAdd where hj: "hashJoin current target = (ps, rulesToDel, rulesToAdd)"
        by (cases "hashJoin current target")
      obtain dres w2 where d: "deleteLoop ipt tbl chn rulesToDel w1 = (dres, w2)"
        by (cases "deleteLoop ipt tbl chn rulesToDel w1")
      from deleteLoop_trace[of ipt tbl chn rulesToDel w1] d obtain dels where
        dels: "fst w2 = fst w1 @ dels"
          "loopTrace (map (\<lambda>r. CallDelete tbl chn (Split r CHR '' '')) rulesToDel)
             ''iptables delete: '' dres dels"
        by auto
      have delcalls: "\<forall>x \<in> set dels. \<exists>spec. fst x = CallDelete tbl chn spec"
      proof
        fix x assume "x \<in> set dels"
        then have "fst x \<in> set (map fst dels)" by simp
        also have "map fst dels = take (length dels) (map (\<lambda>r. CallDelete tbl chn (Split r CHR '' '')) rulesToDel)"
          by (rule loopTrace_calls[OF dels(2)])
        finally show "\<exists>spec. fst x = CallDelete tbl chn spec"
          by (auto dest!: in_set_takeD)
      qed
      show ?thesis
      proof (cases dres)
        case (Some err)
        with run g Inr hj d have r: "res = Some err" "w' = w2"
          by (simp_all add: syncChainWith_def)
        from loopTrace_Some[OF dels(2)[unfolded Some]] obtain e0 where
          e0: "dels \<noteq> []" "snd (last dels) = Some e0" "err = ''iptables delete: '' @ e0"
          by blast
        have bl: "\<forall>x \<in> set (butlast dels). snd x = None"
          using loopTrace_butlast[OF dels(2)] by blast
        from r listed dels(1) delcalls e0 bl show ?thesis
          by (intro exI[of _ "(CallList tbl chn, None)"] exI[of _ dels] exI[of _ "[]"])
             (auto simp: butlast_append)
      next
        case None
        from loopTrace_None[OF dels(2)[unfolded None]]
        have dn: "\<forall>x \<in> set dels. snd x = None"
          by auto
        from run g Inr hj d None have a: "appendLoop ipt tbl chn rulesToAdd w2 = (res, w')"
          by (simp add: syncChainWith_def)
        from appendLoop_trace[of ipt tbl chn rulesToAdd w2] a obtain adds where
          adds: "fst w' = fst w2 @ adds"
            "loopTrace (map (\<lambda>r. CallAppend tbl chn (Split r CHR '' '')) rulesToAdd)
               ''iptables append: '' res adds"
          by auto
        have addcalls: "\<forall>x \<in> set adds. \<exists>spec. fst x = CallAppend tbl chn spec"
        proof
          fix x assume "x \<in> set adds"
          then have "fst x \<in> set (map fst adds)" by simp
          also have "map fst adds = take (length adds) (map (\<lambda>r. CallAppend tbl chn (Split r CHR '' '')) rulesToAdd)"
            by (rule loopTrace_calls[OF adds(2)])
          finally show "\<exists>spec. fst x = CallAppend tbl chn spec"
            by (auto dest!: in_set_takeD)
        qed
        have bl: "\<forall>x \<in> set (butlast adds). snd x = None"
          using loopTrace_butlast[OF adds(2)] by blast
        show ?thesis
        proof (cases res)
          case None
          from loopTrace_None[OF adds(2)[unfolded None]]
          have an: "\<forall>x \<in> set adds. snd x = None"
            by auto
          from listed dels(1) adds(1) delcalls addcalls dn an None show ?thesis
            by (intro exI[of _ "(CallList tbl chn, None)"] exI[of _ dels] exI[of _ adds])
               (auto simp: butlast_append last_append dest: in_set_butlastD)
        next
          case (Some err)
          from loopTrace_Some[OF adds(2)[unfolded Some]] obtain e0 where
            e0: "adds \<noteq> []" "snd (last adds) = Some e0" "err = ''iptables append: '' @ e0"
            by blast
          from listed dels(1) adds(1) delcalls addcalls dn bl e0 Some show ?thesis
            by (intro exI[of _ "(CallList tbl chn, None)"] exI[of _ dels] exI[of _ adds])
               (auto simp: butlast_append)
        qed
      qed
    qed
  qed
qed



theorem syncChainWith_deletes_before_appends_witness:
  "syncChainWith HashJoin readOnlyIPT ''nat'' ''PREROUTING'' webRules ([], staleChains) =
     (Some ''iptables delete: Permission denied'',
      ([(CallList ''nat'' ''PREROUTING'', None),
        (CallDelete ''nat'' ''PREROUTING'' (Split staleRule CHR '' ''), Some ''Permission denied'')],
       staleChains))
   \<and> (\<exists>lst dels adds.
         [(CallList ''nat'' ''PREROUTING'', None),
          (CallDelete ''nat'' ''PREROUTING'' (Split staleRule CHR '' ''), Some ''Permission denied'')]
           = [lst] @ dels @ adds
       \<and> fst lst = CallList ''nat'' ''PREROUTING''
       \<and> (\<forall>x \<in> set dels. \<exists>spec. fst x = CallDelete ''nat'' ''PREROUTING'' spec)
       \<and> (\<forall>x \<in> set (butlast ([lst] @ dels @ adds)). snd x = None)
       \<and> snd (last ([lst] @ dels @ adds)) = Some ''Permission denied''
       \<and> (\<exists>x \<in> set dels. snd x \<noteq> None)
       \<and> adds = [])"
proof -
  have run: "syncChainWith HashJoin readOnlyIPT ''nat'' ''PREROUTING'' webRules ([], staleChains) =
     (Some ''iptables delete: Permission denied'',
      ([(CallList ''nat'' ''PREROUTING'', None),
        (CallDelete ''nat'' ''PREROUTING'' (Split staleRule CHR '' ''), Some ''Permission denied'')],
       staleChains))"
    by code_simp
  from syncChainWith_deletes_before_appends[OF run] obtain lst dels adds where
    h: "[(CallList ''nat'' ''PREROUTING'', None),
          (CallDelete ''nat'' ''PREROUTING'' (Split staleRule CHR '' ''), Some ''Permission denied'')]
           = [lst] @ dels @ adds"
       "fst lst = CallList ''nat'' ''PREROUTING''"
       "\<forall>x \<in> set dels. \<exists>spec. fst x = CallDelete ''nat'' ''PREROUTING'' spec"
       "\<forall>x \<in> set adds. \<exists>spec. fst x = CallAppend ''nat'' ''PREROUTING'' spec"
       "\<forall>x \<in> set (butlast ([lst] @ dels @ adds)). snd x = None"
    by auto
  from h(1) have l: "lst = (CallList ''nat'' ''PREROUTING'', None)"
    and da: "dels @ adds = [(CallDelete ''nat'' ''PREROUTING'' (Split staleRule CHR '' ''), Some ''Permission denied'')]"
    by simp_all
  from da h(4) have a: "adds = []"
    by (cases adds) (auto simp: append_eq_Cons_conv Cons_eq_append_conv)
  with da have d: "dels = [(CallDelete ''nat'' ''PREROUTING'' (Split staleRule CHR '' ''), Some ''Permission denied'')]"
    by simp
  show ?thesis
    using run h(3) by (intro conjI exI[of _ lst] exI[of _ dels] exI[of _ adds]) (simp_all add: l a d)
qed

text \<open>
  C8: \<open>setDefaultRules\<close> only issues \<open>AppendUnique\<close> calls (never a \<open>Delete\<close>): a
  prefix of the three calls for nat/INPUT \<^verbatim>\<open>-j ACCEPT\<close>, nat/OUTPUT \<^verbatim>\<open>-j ACCEPT\<close> and
  nat/POSTROUTING \<^verbatim>\<open>-s 10.0.0.0/8 -o <publicInterface> -j MASQUERADE\<close>, in that order.
  When it returns \<open>nil\<close> all three were issued and none failed. Every call but the last
  succeeded, and an error returned is that of the last call, under the prefix
  \<^verbatim>\<open>iptables append:\<close>; \<open>updateNAT\<close> then returns the same error and the world as
  \<open>setDefaultRules\<close> left it, so nothing is listed, deleted or appended in PREROUTING.
\<close>

theorem setDefaultRules_three_appends:
  assumes run: "setDefaultRules ipt publicInterface w = (res, w')"
  shows "\<exists>new.
           fst w' = fst w @ new
         \<and> map fst new = take (length new)
             [CallAppendUnique ''nat'' ''INPUT'' [''-j'', ''ACCEPT''],
              CallAppendUnique ''nat'' ''OUTPUT'' [''-j'', ''ACCEPT''],
              CallAppendUnique ''nat'' ''POSTROUTING''
                [''-s'', ''10.0.0.0/8'', ''-o'', publicInterface, ''-j'', ''MASQUERADE'']]
         \<and> length new \<le> 3
         \<and> (\<forall>x \<in> set (butlast new). snd x = None)
         \<and> (res = None \<longrightarrow> length new = 3 \<and> (\<forall>x \<in> set new. snd x = None))
         \<and> (\<forall>e. res = Some e \<longrightarrow>
               new \<noteq> [] \<and> (\<exists>e0. snd (last new) = Some e0 \<and> e = ''iptables append: '' @ e0))
         \<and> (\<forall>e. res = Some e \<longrightarrow>
               getPublicInterfaceImpl routeList linkByIndex = Inr publicInterface \<longrightarrow>
               updateNAT routeList linkByIndex ipt containers connections w = (Some e, w'))"
proof -
  let ?cs = "map (\<lambda>r. CallAppendUnique (table r) (chain r) (ruleSpec r)) (defaultRules publicInterface)"
  have cs: "?cs = [CallAppendUnique ''nat'' ''INPUT'' [''-j'', ''ACCEPT''],
              CallAppendUnique ''nat'' ''OUTPUT'' [''-j'', ''ACCEPT''],
              CallAppendUnique ''nat'' ''POSTROUTING''
                [''-s'', ''10.0.0.0/8'', ''-o'', publicInterface, ''-j'', ''MASQUERADE'']]"
    by (simp add: defaultRules_def)
  from appendUniqueLoop_trace[of ipt "defaultRules publicInterface" w] run obtain new where
    new: "fst w' = fst w @ new" "loopTrace ?cs ''iptables append: '' res new"
    by (auto simp: setDefaultRules_def)
  have 1: "map fst new = take (length new) ?cs"
    by (rule loopTrace_calls[OF new(2)])
  have 2: "length new \<le> 3"
    using loopTrace_length[OF new(2)] by (simp add: defaultRules_def)
  have 3: "\<forall>x \<in> set (butlast new). snd x = None"
    using loopTrace_butlast[OF new(2)] by blast
  have 4: "res = None \<longrightarrow> length new = 3 \<and> (\<forall>x \<in> set new. snd x = None)"
  proof
    assume "res = None"
    with new(2) have "loopTrace ?cs ''iptables append: '' None new"
      by simp
    then have "new = map (\<lambda>c. (c, None)) ?cs"
      by (rule loopTrace_None)
    then show "length new = 3 \<and> (\<forall>x \<in> set new. snd x = None)"
      by (auto simp: defaultRules_def)
  qed
  have 5: "\<forall>e. res = Some e \<longrightarrow>
               new \<noteq> [] \<and> (\<exists>e0. snd (last new) = Some e0 \<and> e = ''iptables append: '' @ e0)"
    using loopTrace_Some[of ?cs "''iptables append: ''" _ new] new(2) by blast
  have 6: "\<forall>e. res = Some e \<longrightarrow>
               getPublicInterfaceImpl routeList linkByIndex = Inr publicInterface \<longrightarrow>
               updateNAT routeList linkByIndex ipt containers connections w = (Some e, w')"
    using run by (simp add: updateNAT_def)
  note 1 = 1[unfolded cs]
  show ?thesis
    by (rule exI[of _ new]) (intro conjI new(1) 1 2 3 4 5 6)
qed

theorem setDefaultRules_three_appends_witness:
  "setDefaultRules fakeIPT ''eth0'' ([], noRules) =
     (None,
      ([(CallAppendUnique ''nat'' ''INPUT'' [''-j'', ''ACCEPT''], None),
        (CallAppendUnique ''nat'' ''OUTPUT'' [''-j'', ''ACCEPT''], None),
        (CallAppendUnique ''nat'' ''POSTROUTING''
           [''-s'', ''10.0.0.0/8'', ''-o'', ''eth0'', ''-j'', ''MASQUERADE''], None)],
       [(''INPUT'', [''-j ACCEPT'']), (''OUTPUT'', [''-j ACCEPT'']),
        (''POSTROUTING'', [''-s 10.0.0.0/8 -o eth0 -j MASQUERADE''])]))
   \<and> setDefaultRules lockedIPT ''eth0'' ([], staleChains) =
     (Some ''iptables append: Permission denied'',
      ([(CallAppendUnique ''nat'' ''INPUT'' [''-j'', ''ACCEPT''], Some ''Permission denied'')],
       staleChains))
   \<and> getPublicInterfaceImpl (Inr [firstDefault]) hostLinks = Inr ''eth0''
   \<and> updateNAT (Inr [firstDefault]) hostLinks lockedIPT [webContainer] [webConnection]
       ([], staleChains) =
     (Some ''iptables append: Permission denied'',
      ([(CallAppendUnique ''nat'' ''INPUT'' [''-j'', ''ACCEPT''], Some ''Permission denied'')],
       staleChains))"
proof -
  have ok: "setDefaultRules fakeIPT ''eth0'' ([], noRules) =
     (None,
      ([(CallAppendUnique ''nat'' ''INPUT'' [''-j'', ''ACCEPT''], None),
        (CallAppendUnique ''nat'' ''OUTPUT'' [''-j'', ''ACCEPT''], None),
        (CallAppendUnique ''nat'' ''POSTROUTING''
           [''-s'', ''10.0.0.0/8'', ''-o'', ''eth0'', ''-j'', ''MASQUERADE''], None)],
       [(''INPUT'', [''-j ACCEPT'']), (''OUTPUT'', [''-j ACCEPT'']),
        (''POSTROUTING'', [''-s 10.0.0.0/8 -o eth0 -j MASQUERADE''])]))"
    by code_simp
  have run: "setDefaultRules lockedIPT ''eth0'' ([], staleChains) =
     (Some ''iptables append: Permission denied'',
      ([(CallAppendUnique ''nat'' ''INPUT'' [''-j'', ''ACCEPT''], Some ''Permission denied'')],
       staleChains))"
    by code_simp
  have pif: "getPublicInterfaceImpl (Inr [firstDefault]) hostLinks = Inr ''eth0''"
    by code_simp
  from setDefaultRules_three_appends[OF run, of "Inr [firstDefault]" hostLinks
      "[webContainer]" "[webConnection]"] pif
  have "updateNAT (Inr [firstDefault]) hostLinks lockedIPT [webContainer] [webConnection]
       ([], staleChains) =
     (Some ''iptables append: Permission denied'',
      ([(CallAppendUnique ''nat'' ''INPUT'' [''-j'', ''ACCEPT''], Some ''Permission denied'')],
       staleChains))"
    by blast
  with ok run pif show ?thesis
    by (intro conjI)
qed

section \<open>Parsing the listing\<close>

lemma count_list_after_sep:
  "sep \<in> set s \<Longrightarrow> count_list s sep = Suc (count_list (tl (dropWhile (\<lambda>c. c \<noteq> sep) s)) sep)"
  by (induction s) auto

lemma length_SplitN_3:
  "(length (SplitN r sep 3) = 3) = (2 \<le> count_list r sep)"
proof (cases "sep \<in> set r")
  case False
  then have "count_list r sep = 0" by simp
  with False show ?thesis by (simp add: numeral_3_eq_3)
next
  case True
  let ?rest = "tl (dropWhile (\<lambda>c. c \<noteq> sep) r)"
  from True have c: "count_list r sep = Suc (count_list ?rest sep)"
    by (rule count_list_after_sep)
  show ?thesis
  proof (cases "sep \<in> set ?rest")
    case False
    then have "count_list ?rest sep = 0" by simp
    with True False c show ?thesis by (simp add: numeral_3_eq_3 numeral_2_eq_2)
  next
    case r: True
    then have "count_list ?rest sep = Suc (count_list (tl (dropWhile (\<lambda>c. c \<noteq> sep) ?rest)) sep)"
      by (rule count_list_after_sep)
    with True r c show ?thesis by (simp add: numeral_3_eq_3 numeral_2_eq_2)
  qed
qed

lemma SplitN_3_nth_2:
  "length (SplitN r CHR '' '' 3) = 3 \<Longrightarrow> SplitN r CHR '' '' 3 ! 2 = ruleArgs r"
  by (auto simp: numeral_3_eq_3 numeral_2_eq_2 ruleArgs_def split: if_splits)

lemma dropWhile_to_sep:
  "sep \<notin> set a \<Longrightarrow> dropWhile (\<lambda>c. c \<noteq> sep) (a @ sep # rest) = sep # rest"
  by (induction a) auto

lemma ruleArgs_fields:
  "CHR '' '' \<notin> set a \<Longrightarrow> CHR '' '' \<notin> set b \<Longrightarrow> ruleArgs (a @ CHR '' '' # b @ CHR '' '' # c) = c"
  by (simp add: ruleArgs_def dropWhile_to_sep)

lemma parseRules_acc:
  "parseRules rawRules rules =
     (case find (\<lambda>r. HasPrefix r ''-A'' \<and> count_list r CHR '' '' < 2) rawRules of
        Some r \<Rightarrow> Inl (''malformed rule: '' @ r)
      | None \<Rightarrow> Inr (rules @ map ruleArgs (filter (\<lambda>r. HasPrefix r ''-A'') rawRules)))"
proof (induction rawRules arbitrary: rules)
  case Nil
  show ?case by simp
next
  case (Cons r rawRules)
  show ?case
  proof (cases "HasPrefix r ''-A''")
    case False
    with Cons.IH[of rules] show ?thesis by (simp split: option.splits)
  next
    case True
    show ?thesis
    proof (cases "count_list r CHR '' '' < 2")
      case bad: True
      then have "length (SplitN r CHR '' '' 3) \<noteq> 3"
        by (simp add: length_SplitN_3)
      with True bad show ?thesis by (simp add: Let_def)
    next
      case good: False
      then have l: "length (SplitN r CHR '' '' 3) = 3"
        by (simp add: length_SplitN_3)
      from True good l Cons.IH[of "rules @ [ruleArgs r]"] show ?thesis
        by (simp add: Let_def SplitN_3_nth_2 split: option.splits)
    qed
  qed
qed

text \<open>
  C6: when the adapter fails to list, \<open>getRules\<close> returns its error. Otherwise every
  line that does not begin with \<^verbatim>\<open>-A\<close> is dropped; if some line that begins with \<^verbatim>\<open>-A\<close>
  has fewer than two spaces (which is when \<^verbatim>\<open>SplitN\<close> at the space into at most three
  fields does not give three), the result is the error \<^verbatim>\<open>malformed rule:\<close> with the
  first such line; if there is none, the result is, for each \<^verbatim>\<open>-A\<close> line in order, the
  text after its second space, which for a line \<^verbatim>\<open>a b c\<close> with no space in \<open>a\<close> and \<open>b\<close>
  is \<open>c\<close>.
\<close>

theorem getRules_filters_and_rejects:
  assumes "ListRules ipt tbl chn (snd w) = (listed, s1)"
  shows "fst (getRules ipt tbl chn w) =
           (case listed of
              Inl err \<Rightarrow> Inl err
            | Inr rawRules \<Rightarrow>
                (case find (\<lambda>r. HasPrefix r ''-A'' \<and> count_list r CHR '' '' < 2) rawRules of
                   Some r \<Rightarrow> Inl (''malformed rule: '' @ r)
                 | None \<Rightarrow> Inr (map ruleArgs (filter (\<lambda>r. HasPrefix r ''-A'') rawRules))))
         \<and> (\<forall>r. (length (SplitN r CHR '' '' 3) \<noteq> 3) = (count_list r CHR '' '' < 2))
         \<and> (\<forall>a b c. CHR '' '' \<notin> set a \<longrightarrow> CHR '' '' \<notin> set b \<longrightarrow>
               ruleArgs (a @ CHR '' '' # b @ CHR '' '' # c) = c)"
proof -
  have "fst (getRules ipt tbl chn w) =
           (case listed of
              Inl err \<Rightarrow> Inl err
            | Inr rawRules \<Rightarrow>
                (case find (\<lambda>r. HasPrefix r ''-A'' \<and> count_list r CHR '' '' < 2) rawRules of
                   Some r \<Rightarrow> Inl (''malformed rule: '' @ r)
                 | None \<Rightarrow> Inr (map ruleArgs (filter (\<lambda>r. HasPrefix r ''-A'') rawRules))))"
    using assms
    by (cases listed) (simp_all add: getRules_def callList_def parseRules_acc[of _ "[]"] split: option.splits)
  moreover have "\<forall>r. (length (SplitN r CHR '' '' 3) \<noteq> 3) = (count_list r CHR '' '' < 2)"
    by (simp add: length_SplitN_3 not_le)
  ultimately show ?thesis
    by (simp add: ruleArgs_fields)
qed

theorem getRules_filters_and_rejects_witness:
  "ListRules fakeIPT ''nat'' ''PREROUTING'' staleChains =
     (Inr [''-P PREROUTING ACCEPT'', ''-A PREROUTING '' @ staleRule], staleChains)
   \<and> fst (getRules fakeIPT ''nat'' ''PREROUTING'' ([], staleChains)) = Inr [staleRule]
   \<and> ListRules truncatedIPT ''nat'' ''PREROUTING'' staleChains =
     (Inr [''-P PREROUTING ACCEPT'', ''-A PREROUTING -j ACCEPT'', ''-A PREROUTING''], staleChains)
   \<and> fst (getRules truncatedIPT ''nat'' ''PREROUTING'' ([], staleChains)) =
       Inl ''malformed rule: -A PREROUTING''
   \<and> ruleArgs (''-A'' @ CHR '' '' # ''PREROUTING'' @ CHR '' '' # staleRule) = staleRule"
proof -
  have l1: "ListRules fakeIPT ''nat'' ''PREROUTING'' (snd ([], staleChains)) =
     (Inr [''-P PREROUTING ACCEPT'', ''-A PREROUTING '' @ staleRule], staleChains)"
    by code_simp
  have l2: "ListRules truncatedIPT ''nat'' ''PREROUTING'' (snd ([], staleChains)) =
     (Inr [''-P PREROUTING ACCEPT'', ''-A PREROUTING -j ACCEPT'', ''-A PREROUTING''], staleChains)"
    by code_simp
  have f1: "find (\<lambda>r. HasPrefix r ''-A'' \<and> count_list r CHR '' '' < 2)
              [''-P PREROUTING ACCEPT'', ''-A PREROUTING '' @ staleRule] = None"
    by code_simp
  have m1: "map ruleArgs (filter (\<lambda>r. HasPrefix r ''-A'')
              [''-P PREROUTING ACCEPT'', ''-A PREROUTING '' @ staleRule]) = [staleRule]"
    by code_simp
  have f2: "find (\<lambda>r. HasPrefix r ''-A'' \<and> count_list r CHR '' '' < 2)
              [''-P PREROUTING ACCEPT'', ''-A PREROUTING -j ACCEPT'', ''-A PREROUTING''] =
            Some ''-A PREROUTING''"
    by code_simp
  have sa: "CHR '' '' \<notin> set ''-A''" and sb: "CHR '' '' \<notin> set ''PREROUTING''"
    by simp_all
  have g1: "fst (getRules fakeIPT ''nat'' ''PREROUTING'' ([], staleChains)) = Inr [staleRule]"
    using getRules_filters_and_rejects[OF l1] f1 m1 by simp
  have g2: "fst (getRules truncatedIPT ''nat'' ''PREROUTING'' ([], staleChains)) =
       Inl ''malformed rule: -A PREROUTING''"
    using getRules_filters_and_rejects[OF l2] f2 by simp
  have ra: "ruleArgs (''-A'' @ CHR '' '' # ''PREROUTING'' @ CHR '' '' # staleRule) = staleRule"
    using getRules_filters_and_rejects[OF l1] sa sb by blast
  from l1 l2 g1 g2 ra show ?thesis
    by simp
qed

section \<open>The compiled rules\<close>

subsection \<open>Decimal rendering and the format of a rule\<close>

lemma of_char_digitChar: "d < 10 \<Longrightarrow> of_char (digitChar d) = 48 + d"
  by (simp add: digitChar_def)

lemma digitChar_inj: "d < 10 \<Longrightarrow> e < 10 \<Longrightarrow> digitChar d = digitChar e \<Longrightarrow> d = e"
proof -
  assume d: "d < 10" and e: "e < 10" and eq: "digitChar d = digitChar e"
  from eq have "(of_char (digitChar d) :: nat) = of_char (digitChar e)" by simp
  with d e show "d = e" by (simp add: of_char_digitChar)
qed

lemma digitChar_not_space: "d < 10 \<Longrightarrow> digitChar d \<noteq> CHR '' ''"
proof
  assume d: "d < 10" and eq: "digitChar d = CHR '' ''"
  from eq have "(of_char (digitChar d) :: nat) = of_char CHR '' ''" by simp
  with d show False by (simp add: of_char_digitChar)
qed

lemma digitChar_not_minus: "d < 10 \<Longrightarrow> digitChar d \<noteq> CHR ''-''"
proof
  assume d: "d < 10" and eq: "digitChar d = CHR ''-''"
  from eq have "(of_char (digitChar d) :: nat) = of_char CHR ''-''" by simp
  with d show False by (simp add: of_char_digitChar)
qed

lemma digits_not_Nil: "digits n \<noteq> []"
  by (subst digits.simps) simp

lemma set_digits: "c \<in> set (digits n) \<Longrightarrow> \<exists>d < 10. c = digitChar d"
proof (induction n rule: digits.induct)
  case (1 n)
  show ?case
  proof (cases "n < 10")
    case True
    with "1.prems" show ?thesis by (subst (asm) digits.simps) auto
  next
    case False
    with "1.prems" have "c \<in> set (digits (n div 10)) \<or> c = digitChar (n mod 10)"
      by (subst (asm) digits.simps) auto
    with False "1.IH" show ?thesis
      by (auto intro: exI[of _ "n mod 10"])
  qed
qed

lemma digits_no_space: "CHR '' '' \<notin> set (digits n)"
proof
  assume "CHR '' '' \<in> set (digits n)"
  then obtain d where "d < 10" and "CHR '' '' = digitChar d"
    using set_digits by blast
  then show False
    using digitChar_not_space[of d] by simp
qed

lemma digits_no_minus: "CHR ''-'' \<notin> set (digits n)"
proof
  assume "CHR ''-'' \<in> set (digits n)"
  then obtain d where "d < 10" and "CHR ''-'' = digitChar d"
    using set_digits by blast
  then show False
    using digitChar_not_minus[of d] by simp
qed

lemma digits_inj: "digits m = digits n \<Longrightarrow> m = n"
proof (induction m arbitrary: n rule: digits.induct)
  case (1 m)
  show ?case
  proof (cases "m < 10")
    case m: True
    show ?thesis
    proof (cases "n < 10")
      case True
      with m "1.prems" show ?thesis
        by (simp add: digits.simps[of m] digits.simps[of n] digitChar_inj)
    next
      case False
      with m "1.prems" digits_not_Nil[of "n div 10"] show ?thesis
        by (simp add: digits.simps[of m] digits.simps[of n] Cons_eq_append_conv)
    qed
  next
    case m: False
    show ?thesis
    proof (cases "n < 10")
      case True
      with m "1.prems" digits_not_Nil[of "m div 10"] show ?thesis
        by (simp add: digits.simps[of m] digits.simps[of n] append_eq_Cons_conv)
    next
      case False
      with m "1.prems" have "digits (m div 10) = digits (n div 10)"
        and "digitChar (m mod 10) = digitChar (n mod 10)"
        by (simp_all add: digits.simps[of m] digits.simps[of n])
      with m "1.IH"[of "n div 10"] have "m div 10 = n div 10" and "m mod 10 = n mod 10"
        by (simp_all add: digitChar_inj)
      then show ?thesis
        by (metis div_mult_mod_eq)
    qed
  qed
qed

lemma formatInt_inj: "formatInt i = formatInt j \<Longrightarrow> i = j"
proof -
  assume eq: "formatInt i = formatInt j"
  have nm: "CHR ''-'' # digits a \<noteq> digits b" for a b
  proof
    assume "CHR ''-'' # digits a = digits b"
    then have "CHR ''-'' \<in> set (digits b)" by (metis list.set_intros(1))
    then show False by (simp add: digits_no_minus)
  qed
  show "i = j"
  proof (cases "i < 0")
    case i: True
    show ?thesis
    proof (cases "j < 0")
      case True
      with i eq have "nat (- i) = nat (- j)" by (simp add: formatInt_def digits_inj)
      with i True show ?thesis by simp
    next
      case False
      with i eq nm show ?thesis by (simp add: formatInt_def)
    qed
  next
    case i: False
    show ?thesis
    proof (cases "j < 0")
      case True
      with i eq nm[of "nat (- j)" "nat i"] show ?thesis by (simp add: formatInt_def)
    next
      case False
      with i eq have "nat i = nat j" by (simp add: formatInt_def digits_inj)
      with i False show ?thesis by simp
    qed
  qed
qed

lemma formatInt_no_space: "CHR '' '' \<notin> set (formatInt i)"
  by (simp add: formatInt_def digits_no_space)

lemma append_sep_eq:
  "sep \<notin> set xs \<Longrightarrow> sep \<notin> set ys \<Longrightarrow> xs @ sep # r = ys @ sep # r' \<Longrightarrow> xs = ys \<and> r = r'"
proof (induction xs arbitrary: ys)
  case Nil
  then show ?case by (cases ys) auto
next
  case (Cons x xs)
  then show ?case by (cases ys) auto
qed

lemma fmtRule_inj:
  assumes "fmtRule pif p1 port1 ip1 = fmtRule pif p2 port2 ip2"
    and "p1 \<in> set protocols" and "p2 \<in> set protocols"
  shows "p1 = p2 \<and> port1 = port2 \<and> ip1 = ip2"
proof -
  from assms(1) have 1: "p1 @ '' -m '' @ p1 @ '' --dport '' @ formatInt port1 @
      '' -j DNAT --to-destination '' @ ip1 @ '':'' @ formatInt port1 =
    p2 @ '' -m '' @ p2 @ '' --dport '' @ formatInt port2 @
      '' -j DNAT --to-destination '' @ ip2 @ '':'' @ formatInt port2"
    by (simp add: fmtRule_def)
  with assms(2,3) have p: "p1 = p2"
    by (auto simp: protocols_def)
  with 1 assms(2) have 2: "formatInt port1 @ CHR '' '' # (''-j DNAT --to-destination '' @ ip1 @ '':'' @ formatInt port1) =
    formatInt port2 @ CHR '' '' # (''-j DNAT --to-destination '' @ ip2 @ '':'' @ formatInt port2)"
    by (auto simp: protocols_def)
  have h: "formatInt port1 = formatInt port2 \<and>
        ''-j DNAT --to-destination '' @ ip1 @ '':'' @ formatInt port1 =
        ''-j DNAT --to-destination '' @ ip2 @ '':'' @ formatInt port2"
    by (rule append_sep_eq[OF formatInt_no_space formatInt_no_space 2])
  from h have f: "formatInt port1 = formatInt port2"
    by (rule conjunct1)
  from h have "''-j DNAT --to-destination '' @ ip1 @ '':'' @ formatInt port1 =
        ''-j DNAT --to-destination '' @ ip2 @ '':'' @ formatInt port2"
    by (rule conjunct2)
  then have 3: "ip1 @ CHR '':'' # formatInt port1 = ip2 @ CHR '':'' # formatInt port2"
    by simp
  from f have q: "port1 = port2" by (rule formatInt_inj)
  from 3 f have "ip1 @ (CHR '':'' # formatInt port2) = ip2 @ (CHR '':'' # formatInt port2)"
    by (simp only:)
  then have "ip1 = ip2" by (simp only: append_same_eq)
  with p q show ?thesis by simp
qed


subsection \<open>The port map\<close>

lemma entries_Nil: "entries [] = {}"
  by (simp add: entries_def)

lemma entries_Cons: "entries ((k, ports) # m) = {k} \<times> set ports \<union> entries m"
  by (auto simp: entries_def)

lemma entries_addPort: "entries (addPort ip port m) = insert (ip, port) (entries m)"
proof (induction m)
  case Nil
  show ?case by (simp add: entries_Nil entries_Cons)
next
  case (Cons a m)
  obtain k ports where a: "a = (k, ports)" by (cases a)
  show ?case
  proof (cases "k = ip")
    case True
    with a show ?thesis by (auto simp: entries_Cons)
  next
    case False
    with a Cons.IH show ?thesis by (auto simp: entries_Cons)
  qed
qed

lemma keys_addPort: "fst ` set (addPort ip port m) = insert ip (fst ` set m)"
proof (induction m)
  case Nil
  show ?case by simp
next
  case (Cons a m)
  obtain k ports where a: "a = (k, ports)" by (cases a)
  show ?case
  proof (cases "k = ip")
    case True
    with a show ?thesis by auto
  next
    case False
    with a Cons.IH show ?thesis by auto
  qed
qed

lemma wellFormed_addPort: "wellFormed m \<Longrightarrow> wellFormed (addPort ip port m)"
proof (induction m)
  case Nil
  show ?case by (simp add: wellFormed_def)
next
  case (Cons a m)
  obtain k ports where a: "a = (k, ports)" by (cases a)
  from Cons.prems have wm: "wellFormed m"
    by (simp add: wellFormed_def)
  then have "wellFormed (addPort ip port m)"
    by (rule Cons.IH)
  with Cons.prems a keys_addPort[of ip port m] show ?case
    by (auto simp: wellFormed_def)
qed

lemma labelLoop_fold:
  "entries (foldl (\<lambda>m l. if To conn \<noteq> l then m else addPort ip port m) m ls) =
     entries m \<union> (if To conn \<in> set ls then {(ip, port)} else {})
   \<and> (wellFormed m \<longrightarrow>
        wellFormed (foldl (\<lambda>m l. if To conn \<noteq> l then m else addPort ip port m) m ls))"
  by (induction ls arbitrary: m) (auto simp: entries_addPort wellFormed_addPort)

lemma entries_labelLoop:
  "entries (labelLoop dbc conn m) =
     entries m \<union> (if To conn \<in> set (Labels dbc) then {(IP dbc, MinPort conn)} else {})"
  unfolding labelLoop_def using labelLoop_fold[of conn "IP dbc" "MinPort conn" m "Labels dbc"]
  by blast

lemma wellFormed_labelLoop: "wellFormed m \<Longrightarrow> wellFormed (labelLoop dbc conn m)"
  unfolding labelLoop_def using labelLoop_fold[of conn "IP dbc" "MinPort conn" m "Labels dbc"]
  by blast

lemma connectionLoop_fold:
  "entries (connectionLoop dbc connections m) =
     entries m \<union> {(IP dbc, MinPort conn) | conn.
       conn \<in> set connections \<and> From conn = PublicInternetLabel \<and> To conn \<in> set (Labels dbc)}
   \<and> (wellFormed m \<longrightarrow> wellFormed (connectionLoop dbc connections m))"
  unfolding connectionLoop_def
proof (induction connections arbitrary: m)
  case Nil
  show ?case by simp
next
  case (Cons conn connections)
  show ?case
  proof (cases "From conn = PublicInternetLabel")
    case False
    with Cons.IH[of m] show ?thesis by auto
  next
    case True
    with Cons.IH[of "labelLoop dbc conn m"] show ?thesis
      by (auto simp: entries_labelLoop wellFormed_labelLoop split: if_splits)
  qed
qed

lemma portsFromWeb_fold:
  "entries (foldl (\<lambda>m dbc. connectionLoop dbc connections m) m containers) =
     entries m \<union> collectedPairs containers connections
   \<and> (wellFormed m \<longrightarrow>
        wellFormed (foldl (\<lambda>m dbc. connectionLoop dbc connections m) m containers))"
proof (induction containers arbitrary: m)
  case Nil
  show ?case by (simp add: collectedPairs_def)
next
  case (Cons dbc containers)
  have c: "collectedPairs (dbc # containers) connections =
      {(IP dbc, MinPort conn) | conn.
         conn \<in> set connections \<and> From conn = PublicInternetLabel \<and> To conn \<in> set (Labels dbc)}
      \<union> collectedPairs containers connections"
    by (auto simp: collectedPairs_def)
  from Cons.IH[of "connectionLoop dbc connections m"] connectionLoop_fold[of dbc connections m]
  show ?case
    unfolding c by auto
qed

lemma entries_portsFromWeb:
  "entries (portsFromWeb containers connections) = collectedPairs containers connections"
  unfolding portsFromWeb_def using portsFromWeb_fold[of connections "[]" containers]
  by (simp add: entries_Nil)

lemma wellFormed_portsFromWeb: "wellFormed (portsFromWeb containers connections)"
  unfolding portsFromWeb_def using portsFromWeb_fold[of connections "[]" containers]
  by (simp add: wellFormed_def)

subsection \<open>The rules of a port map\<close>

lemma routingRules_render:
  "routingRules pif containers connections = render pif (portsFromWeb containers connections)"
  by (simp add: routingRules_def render_def renderPorts_def)

lemma set_renderPorts:
  "set (renderPorts pif ip ports) =
     {fmtRule pif protocol port ip | protocol port. protocol \<in> set protocols \<and> port \<in> set ports}"
  by (auto simp: renderPorts_def)

lemma render_Nil: "render pif [] = []"
  by (simp add: render_def)

lemma render_Cons: "render pif ((k, ports) # m) = renderPorts pif k ports @ render pif m"
  by (simp add: render_def)

lemma set_render:
  "set (render pif m) =
     {fmtRule pif protocol port ip | protocol port ip.
        protocol \<in> set protocols \<and> (ip, port) \<in> entries m}"
proof (induction m)
  case Nil
  show ?case by (simp add: render_Nil entries_Nil)
next
  case (Cons a m)
  obtain k ports where a: "a = (k, ports)" by (cases a)
  have "set (render pif (a # m)) = set (renderPorts pif k ports) \<union> set (render pif m)"
    by (simp add: a render_Cons)
  also have "\<dots> = {fmtRule pif protocol port k | protocol port.
        protocol \<in> set protocols \<and> port \<in> set ports}
      \<union> {fmtRule pif protocol port ip | protocol port ip.
        protocol \<in> set protocols \<and> (ip, port) \<in> entries m}"
    by (simp only: set_renderPorts Cons.IH)
  also have "\<dots> = {fmtRule pif protocol port ip | protocol port ip.
        protocol \<in> set protocols \<and> (ip, port) \<in> entries (a # m)}"
    unfolding a entries_Cons by blast
  finally show ?case .
qed

lemma distinct_renderPorts: "distinct ports \<Longrightarrow> distinct (renderPorts pif ip ports)"
proof (induction ports)
  case Nil
  show ?case by (simp add: renderPorts_def)
next
  case (Cons port ports)
  have two: "distinct (map (\<lambda>protocol. fmtRule pif protocol port ip) protocols)"
    using fmtRule_inj[of pif "''tcp''" port ip "''udp''" port ip]
    by (auto simp: protocols_def)
  have disj: "set (map (\<lambda>protocol. fmtRule pif protocol port ip) protocols)
      \<inter> set (renderPorts pif ip ports) = {}"
    using Cons.prems fmtRule_inj[of pif _ port ip _ _ ip]
    by (auto simp: set_renderPorts)
  have "renderPorts pif ip (port # ports) =
      map (\<lambda>protocol. fmtRule pif protocol port ip) protocols @ renderPorts pif ip ports"
    by (simp add: renderPorts_def)
  with two disj Cons show ?case by simp
qed

lemma distinct_render: "wellFormed m \<Longrightarrow> distinct (render pif m)"
proof (induction m)
  case Nil
  show ?case by (simp add: render_def)
next
  case (Cons a m)
  obtain k ports where a: "a = (k, ports)" by (cases a)
  from Cons.prems a have wm: "wellFormed m" and dp: "distinct ports" and k: "k \<notin> fst ` set m"
    by (auto simp: wellFormed_def)
  have disj: "set (renderPorts pif k ports) \<inter> set (render pif m) = {}"
  proof (rule ccontr)
    assume "set (renderPorts pif k ports) \<inter> set (render pif m) \<noteq> {}"
    then obtain p1 port1 p2 port2 ip2 where
      "fmtRule pif p1 port1 k = fmtRule pif p2 port2 ip2"
      "p1 \<in> set protocols" "p2 \<in> set protocols" "(ip2, port2) \<in> entries m"
      by (auto simp: set_renderPorts set_render)
    with fmtRule_inj[of pif p1 port1 k p2 port2 ip2] have "(k, port2) \<in> entries m"
      by simp
    with k show False by (force simp: entries_def)
  qed
  have "render pif (a # m) = renderPorts pif k ports @ render pif m"
    by (simp add: render_def a)
  with disj distinct_renderPorts[OF dp] Cons.IH[OF wm] show ?case by simp
qed

lemma set_routingRules:
  "set (routingRules pif containers connections) =
     {fmtRule pif protocol port ip | protocol port ip.
        protocol \<in> set protocols \<and> (ip, port) \<in> collectedPairs containers connections}"
  by (simp add: routingRules_render set_render entries_portsFromWeb)

lemma distinct_routingRules: "distinct (routingRules pif containers connections)"
  by (simp add: routingRules_render distinct_render wellFormed_portsFromWeb)

lemma fmtRule_in_routingRules:
  "protocol \<in> set protocols \<Longrightarrow>
   (fmtRule pif protocol port ip \<in> set (routingRules pif containers connections)) =
     ((ip, port) \<in> collectedPairs containers connections)"
  using fmtRule_inj[of pif protocol port ip] by (auto simp: set_routingRules)

lemma formatInt_80: "formatInt 80 = ''80''"
  by code_simp

lemma count_list_distinct: "distinct xs \<Longrightarrow> x \<in> set xs \<Longrightarrow> count_list xs x = 1"
  by (induction xs) auto

text \<open>
  C3: for one connection from \<^verbatim>\<open>public\<close> to \<^verbatim>\<open>web\<close> with both ports 80 and one
  container labelled \<^verbatim>\<open>web\<close> at 10.0.0.5 the rules are exactly two, the TCP one and the
  UDP one, each \<^verbatim>\<open>-i <publicInterface> -p <proto> -m <proto> --dport 80 -j DNAT
  --to-destination 10.0.0.5:80\<close>. In general the rules are, as a set, the rule of that
  format for each protocol of tcp and udp and each collected pair of an address and a
  port, and each of these rules occurs exactly once in the list.
\<close>

theorem routingRules_one_rule_per_pair_and_protocol:
  "routingRules publicInterface [\<lparr>IP = ''10.0.0.5'', Labels = [''web'']\<rparr>]
       [\<lparr>From = ''public'', To = ''web'', MinPort = 80, MaxPort = 80\<rparr>] =
     [''-i '' @ publicInterface @ '' -p tcp -m tcp --dport 80 -j DNAT --to-destination 10.0.0.5:80'',
      ''-i '' @ publicInterface @ '' -p udp -m udp --dport 80 -j DNAT --to-destination 10.0.0.5:80'']
   \<and> set (routingRules publicInterface containers connections) =
       {fmtRule publicInterface protocol port ip | protocol port ip.
          protocol \<in> {''tcp'', ''udp''} \<and> (ip, port) \<in> collectedPairs containers connections}
   \<and> (\<forall>protocol \<in> {''tcp'', ''udp''}. \<forall>(ip, port) \<in> collectedPairs containers connections.
         count_list (routingRules publicInterface containers connections)
           (fmtRule publicInterface protocol port ip) = 1)"
proof -
  have a: "routingRules publicInterface [\<lparr>IP = ''10.0.0.5'', Labels = [''web'']\<rparr>]
       [\<lparr>From = ''public'', To = ''web'', MinPort = 80, MaxPort = 80\<rparr>] =
     [''-i '' @ publicInterface @ '' -p tcp -m tcp --dport 80 -j DNAT --to-destination 10.0.0.5:80'',
      ''-i '' @ publicInterface @ '' -p udp -m udp --dport 80 -j DNAT --to-destination 10.0.0.5:80'']"
    by (simp add: routingRules_def portsFromWeb_def connectionLoop_def labelLoop_def
        PublicInternetLabel_def protocols_def fmtRule_def formatInt_80)
  have s: "set protocols = {''tcp'', ''udp''}"
    by (simp add: protocols_def)
  have b: "set (routingRules publicInterface containers connections) =
       {fmtRule publicInterface protocol port ip | protocol port ip.
          protocol \<in> {''tcp'', ''udp''} \<and> (ip, port) \<in> collectedPairs containers connections}"
    unfolding s[symmetric] by (rule set_routingRules)
  have c: "\<forall>protocol \<in> {''tcp'', ''udp''}. \<forall>(ip, port) \<in> collectedPairs containers connections.
         count_list (routingRules publicInterface containers connections)
           (fmtRule publicInterface protocol port ip) = 1"
  proof (intro ballI, clarify)
    fix protocol ip port
    assume "protocol \<in> {''tcp'', ''udp''}" and "(ip, port) \<in> collectedPairs containers connections"
    with b have "fmtRule publicInterface protocol port ip
        \<in> set (routingRules publicInterface containers connections)"
      by blast
    with distinct_routingRules show "count_list (routingRules publicInterface containers connections)
           (fmtRule publicInterface protocol port ip) = 1"
      by (rule count_list_distinct)
  qed
  from a b c show ?thesis by (intro conjI)
qed

lemma routingRules_web: "routingRules ''eth0'' [webContainer] [webConnection] = webRules"
  by code_simp

theorem routingRules_one_rule_per_pair_and_protocol_witness:
  "routingRules ''eth0'' [webContainer] [webConnection] = webRules
   \<and> (''10.0.0.5'', 80) \<in> collectedPairs [webContainer] [webConnection]
   \<and> count_list (routingRules ''eth0'' [webContainer] [webConnection])
       (fmtRule ''eth0'' ''tcp'' 80 ''10.0.0.5'') = 1
   \<and> count_list (routingRules ''eth0'' [webContainer] [webConnection])
       (fmtRule ''eth0'' ''udp'' 80 ''10.0.0.5'') = 1"
proof -
  have p: "(''10.0.0.5'', 80) \<in> collectedPairs [webContainer] [webConnection]"
    by (simp add: collectedPairs_def webContainer_def webConnection_def PublicInternetLabel_def)
  note t = routingRules_one_rule_per_pair_and_protocol[of "''eth0''" "[webContainer]" "[webConnection]"]
  from t have a: "routingRules ''eth0'' [webContainer] [webConnection] = webRules"
    by (simp add: webContainer_def webConnection_def webRules_def)
  from t p have "count_list (routingRules ''eth0'' [webContainer] [webConnection])
       (fmtRule ''eth0'' ''tcp'' 80 ''10.0.0.5'') = 1"
    and "count_list (routingRules ''eth0'' [webContainer] [webConnection])
       (fmtRule ''eth0'' ''udp'' 80 ''10.0.0.5'') = 1"
    by blast+
  with a p show ?thesis by (intro conjI)
qed

text \<open>
  C9: permuting the list of containers or the list of connections leaves the set of
  compiled rules unchanged.
\<close>

theorem routingRules_permutation:
  assumes "mset containers' = mset containers" and "mset connections' = mset connections"
  shows "set (routingRules publicInterface containers' connections') =
         set (routingRules publicInterface containers connections)"
proof -
  from assms have "set containers' = set containers" and "set connections' = set connections"
    by (auto dest: mset_eq_setD)
  then have "collectedPairs containers' connections' = collectedPairs containers connections"
    by (simp add: collectedPairs_def)
  then show ?thesis
    by (simp add: set_routingRules)
qed

theorem routingRules_permutation_witness:
  "mset [apiContainer, webContainer] = mset [webContainer, apiContainer]
   \<and> mset [apiConnection, webConnection] = mset [webConnection, apiConnection]
   \<and> set (routingRules ''eth0'' [apiContainer, webContainer] [apiConnection, webConnection]) =
     set (routingRules ''eth0'' [webContainer, apiContainer] [webConnection, apiConnection])
   \<and> routingRules ''eth0'' [webContainer, apiContainer] [webConnection, apiConnection] =
     [''-i eth0 -p tcp -m tcp --dport 80 -j DNAT --to-destination 10.0.0.5:80'',
      ''-i eth0 -p udp -m udp --dport 80 -j DNAT --to-destination 10.0.0.5:80'',
      ''-i eth0 -p tcp -m tcp --dport 80 -j DNAT --to-destination 10.0.0.6:80'',
      ''-i eth0 -p udp -m udp --dport 80 -j DNAT --to-destination 10.0.0.6:80'',
      ''-i eth0 -p tcp -m tcp --dport 443 -j DNAT --to-destination 10.0.0.6:443'',
      ''-i eth0 -p udp -m udp --dport 443 -j DNAT --to-destination 10.0.0.6:443'']"
proof -
  have c: "mset [apiContainer, webContainer] = mset [webContainer, apiContainer]"
    and d: "mset [apiConnection, webConnection] = mset [webConnection, apiConnection]"
    by simp_all
  have e: "routingRules ''eth0'' [webContainer, apiContainer] [webConnection, apiConnection] =
     [''-i eth0 -p tcp -m tcp --dport 80 -j DNAT --to-destination 10.0.0.5:80'',
      ''-i eth0 -p udp -m udp --dport 80 -j DNAT --to-destination 10.0.0.5:80'',
      ''-i eth0 -p tcp -m tcp --dport 80 -j DNAT --to-destination 10.0.0.6:80'',
      ''-i eth0 -p udp -m udp --dport 80 -j DNAT --to-destination 10.0.0.6:80'',
      ''-i eth0 -p tcp -m tcp --dport 443 -j DNAT --to-destination 10.0.0.6:443'',
      ''-i eth0 -p udp -m udp --dport 443 -j DNAT --to-destination 10.0.0.6:443'']"
    by code_simp
  from routingRules_permutation[OF c d, of "''eth0''"] c d e show ?thesis
    by (intro conjI)
qed

lemma collectedPairs_single:
  "From conn = PublicInternetLabel \<Longrightarrow>
   collectedPairs containers [conn] =
     {(IP dbc, MinPort conn) | dbc. dbc \<in> set containers \<and> To conn \<in> set (Labels dbc)}"
  by (auto simp: collectedPairs_def)

lemma collectedPairs_Cons:
  "collectedPairs containers (conn # connections) =
     collectedPairs containers [conn] \<union> collectedPairs containers connections"
  by (auto simp: collectedPairs_def)

lemma portsFromWeb_MaxPort:
  "portsFromWeb containers (map (\<lambda>conn. conn\<lparr>MaxPort := f conn\<rparr>) connections) =
   portsFromWeb containers connections"
proof -
  have l: "labelLoop dbc (conn\<lparr>MaxPort := x\<rparr>) m = labelLoop dbc conn m" for dbc conn x m
    by (simp add: labelLoop_def cong: if_cong)
  have c: "connectionLoop dbc (map (\<lambda>conn. conn\<lparr>MaxPort := f conn\<rparr>) connections) m =
           connectionLoop dbc connections m" for dbc m
    unfolding connectionLoop_def
    by (induction connections arbitrary: m) (simp_all add: l)
  show ?thesis
    by (simp add: portsFromWeb_def c)
qed

text \<open>
  C5: a connection from the public internet whose range has more than one port
  contributes rules for its minimum port only. Compiled alone it gives exactly one rule
  for each protocol and each container carrying its destination label, on the minimum
  port, each once, and no rule on a port above the minimum in its range. Compiled with
  other connections it adds these rules to theirs, so that a rule on a port above its
  minimum in its range can only come from another public connection whose minimum is
  that port; and the maximum ports do not matter to the result at all.
\<close>

theorem routingRules_only_MinPort:
  assumes pub: "From conn = PublicInternetLabel"
    and range: "MinPort conn < MaxPort conn"
  shows "set (routingRules pif containers [conn]) =
           {fmtRule pif protocol (MinPort conn) (IP dbc) | protocol dbc.
              protocol \<in> {''tcp'', ''udp''} \<and> dbc \<in> set containers \<and> To conn \<in> set (Labels dbc)}
       \<and> distinct (routingRules pif containers [conn])
       \<and> (\<forall>protocol \<in> {''tcp'', ''udp''}. \<forall>port ip.
             MinPort conn < port \<and> port \<le> MaxPort conn \<longrightarrow>
             fmtRule pif protocol port ip \<notin> set (routingRules pif containers [conn]))
       \<and> set (routingRules pif containers (conn # connections)) =
           set (routingRules pif containers [conn]) \<union> set (routingRules pif containers connections)
       \<and> (\<forall>protocol \<in> {''tcp'', ''udp''}. \<forall>port ip.
             MinPort conn < port \<and> port \<le> MaxPort conn \<and>
             fmtRule pif protocol port ip \<in> set (routingRules pif containers (conn # connections)) \<longrightarrow>
             (\<exists>other \<in> set connections. From other = PublicInternetLabel \<and> MinPort other = port))
       \<and> routingRules pif containers (map (\<lambda>c. c\<lparr>MaxPort := MinPort c\<rparr>) (conn # connections)) =
           routingRules pif containers (conn # connections)"
proof -
  have s: "set protocols = {''tcp'', ''udp''}"
    by (simp add: protocols_def)
  have 1: "set (routingRules pif containers [conn]) =
           {fmtRule pif protocol (MinPort conn) (IP dbc) | protocol dbc.
              protocol \<in> {''tcp'', ''udp''} \<and> dbc \<in> set containers \<and> To conn \<in> set (Labels dbc)}"
    unfolding set_routingRules collectedPairs_single[OF pub] s by blast
  have 2: "distinct (routingRules pif containers [conn])"
    by (rule distinct_routingRules)
  have 3: "\<forall>protocol \<in> {''tcp'', ''udp''}. \<forall>port ip.
             MinPort conn < port \<and> port \<le> MaxPort conn \<longrightarrow>
             fmtRule pif protocol port ip \<notin> set (routingRules pif containers [conn])"
  proof (intro ballI allI impI)
    fix protocol port ip
    assume p: "protocol \<in> {''tcp'', ''udp''}" and r: "MinPort conn < port \<and> port \<le> MaxPort conn"
    from p have "protocol \<in> set protocols" by (simp add: s)
    then have "(fmtRule pif protocol port ip \<in> set (routingRules pif containers [conn])) =
        ((ip, port) \<in> collectedPairs containers [conn])"
      by (rule fmtRule_in_routingRules)
    with r show "fmtRule pif protocol port ip \<notin> set (routingRules pif containers [conn])"
      by (auto simp: collectedPairs_single[OF pub])
  qed
  have 4: "set (routingRules pif containers (conn # connections)) =
           set (routingRules pif containers [conn]) \<union> set (routingRules pif containers connections)"
    unfolding set_routingRules collectedPairs_Cons[of containers conn connections] by blast
  have 5: "\<forall>protocol \<in> {''tcp'', ''udp''}. \<forall>port ip.
             MinPort conn < port \<and> port \<le> MaxPort conn \<and>
             fmtRule pif protocol port ip \<in> set (routingRules pif containers (conn # connections)) \<longrightarrow>
             (\<exists>other \<in> set connections. From other = PublicInternetLabel \<and> MinPort other = port)"
  proof (intro ballI allI impI)
    fix protocol port ip
    assume p: "protocol \<in> {''tcp'', ''udp''}"
      and r: "MinPort conn < port \<and> port \<le> MaxPort conn \<and>
             fmtRule pif protocol port ip \<in> set (routingRules pif containers (conn # connections))"
    from r 3 p 4 have "fmtRule pif protocol port ip \<in> set (routingRules pif containers connections)"
      by blast
    moreover from p have "protocol \<in> set protocols" by (simp add: s)
    ultimately have "(ip, port) \<in> collectedPairs containers connections"
      by (simp add: fmtRule_in_routingRules)
    then show "\<exists>other \<in> set connections. From other = PublicInternetLabel \<and> MinPort other = port"
      by (auto simp: collectedPairs_def)
  qed
  have 6: "routingRules pif containers (map (\<lambda>c. c\<lparr>MaxPort := MinPort c\<rparr>) (conn # connections)) =
           routingRules pif containers (conn # connections)"
    by (simp only: routingRules_render portsFromWeb_MaxPort)
  from 1 2 3 4 5 6 show ?thesis by (intro conjI)
qed

theorem routingRules_only_MinPort_witness:
  "From rangeConnection = PublicInternetLabel
   \<and> MinPort rangeConnection < MaxPort rangeConnection
   \<and> routingRules ''eth0'' [webContainer] [rangeConnection] = webRules
   \<and> fmtRule ''eth0'' ''tcp'' 81 ''10.0.0.5'' \<notin> set (routingRules ''eth0'' [webContainer] [rangeConnection])
   \<and> fmtRule ''eth0'' ''udp'' 90 ''10.0.0.5'' \<notin> set (routingRules ''eth0'' [webContainer] [rangeConnection])"
proof -
  have pub: "From rangeConnection = PublicInternetLabel"
    by (simp add: rangeConnection_def PublicInternetLabel_def)
  have range: "MinPort rangeConnection < MaxPort rangeConnection"
    by (simp add: rangeConnection_def)
  have r: "routingRules ''eth0'' [webContainer] [rangeConnection] = webRules"
    by code_simp
  note t = routingRules_only_MinPort[OF pub range, of "''eth0''" "[webContainer]" "[]",
      THEN conjunct2, THEN conjunct2, THEN conjunct1, rule_format]
  have "fmtRule ''eth0'' ''tcp'' 81 ''10.0.0.5'' \<notin> set (routingRules ''eth0'' [webContainer] [rangeConnection])"
    by (rule t) (simp_all add: rangeConnection_def)
  moreover have "fmtRule ''eth0'' ''udp'' 90 ''10.0.0.5'' \<notin> set (routingRules ''eth0'' [webContainer] [rangeConnection])"
    by (rule t) (simp_all add: rangeConnection_def)
  ultimately show ?thesis
    using pub range r by (intro conjI)
qed

lemma runNatTick_target:
  assumes "MinionSelf conn = Inr minion" and "SupervisorInit minion" and "Role minion = Worker"
    and "getPublicInterfaceImpl routeList linkByIndex = Inr pif"
    and "setDefaultRules ipt pif w = (None, w1)"
  shows "snd (runNatTick conn (Inr ipt) routeList linkByIndex w) =
         snd (syncChain ipt ''nat'' ''PREROUTING''
                (routingRules pif (SelectFromContainer conn (\<lambda>c. IP c \<noteq> ''''))
                   (SelectFromConnection conn None)) w1)"
  using assms by (simp add: runNatTick_def updateNAT_def Let_def split: prod.splits option.splits)

text \<open>
  C4: \<open>runNat\<close> compiles the rules from the containers it selects with the predicate
  "the address is not empty". Whenever that selection returns only rows of the container
  table that satisfy its predicate, no compiled rule redirects to the (empty) address of a
  container without address, whatever the protocol and port; and when the table holds
  the one container of Scenario A with its address empty, no rule is compiled. The rules
  spoken of are the target of the tick: on an initialised worker whose public interface
  resolves and whose default rules are installed, the tick ends as \<open>syncChain\<close> on
  PREROUTING does with these rules as target.
\<close>

theorem runNat_excludes_empty_address:
  assumes sel: "\<And>check. set (SelectFromContainer conn check) \<subseteq> {dbc \<in> set containerTable. check dbc}"
  shows "(\<forall>dbc \<in> set containerTable. IP dbc = '''' \<longrightarrow>
            (\<forall>protocol \<in> {''tcp'', ''udp''}. \<forall>port.
               fmtRule pif protocol port (IP dbc) \<notin>
                 set (routingRules pif (SelectFromContainer conn (\<lambda>c. IP c \<noteq> ''''))
                        (SelectFromConnection conn None))))
       \<and> (containerTable = [\<lparr>IP = '''', Labels = [''web'']\<rparr>] \<longrightarrow>
            routingRules pif (SelectFromContainer conn (\<lambda>c. IP c \<noteq> ''''))
              (SelectFromConnection conn None) = [])
       \<and> (MinionSelf conn = Inr minion \<and> SupervisorInit minion \<and> Role minion = Worker \<and>
          getPublicInterfaceImpl routeList linkByIndex = Inr pif \<and>
          setDefaultRules ipt pif w = (None, w1) \<longrightarrow>
            snd (runNatTick conn (Inr ipt) routeList linkByIndex w) =
            snd (syncChain ipt ''nat'' ''PREROUTING''
                   (routingRules pif (SelectFromContainer conn (\<lambda>c. IP c \<noteq> ''''))
                      (SelectFromConnection conn None)) w1))"
proof -
  let ?containers = "SelectFromContainer conn (\<lambda>c. IP c \<noteq> '''')"
  let ?connections = "SelectFromConnection conn None"
  from sel[of "\<lambda>c. IP c \<noteq> ''''"] have ne: "\<forall>dbc \<in> set ?containers. IP dbc \<noteq> ''''"
    by auto
  have none: "('''', port) \<notin> collectedPairs ?containers ?connections" for port
    using ne by (auto simp: collectedPairs_def)
  have 1: "\<forall>dbc \<in> set containerTable. IP dbc = '''' \<longrightarrow>
            (\<forall>protocol \<in> {''tcp'', ''udp''}. \<forall>port.
               fmtRule pif protocol port (IP dbc) \<notin> set (routingRules pif ?containers ?connections))"
  proof (intro ballI allI impI)
    fix dbc :: Container and protocol port
    assume e: "IP dbc = ''''" and "protocol \<in> {''tcp'', ''udp''}"
    then have "protocol \<in> set protocols" by (simp add: protocols_def)
    then have "(fmtRule pif protocol port '''' \<in> set (routingRules pif ?containers ?connections)) =
        (('''', port) \<in> collectedPairs ?containers ?connections)"
      by (rule fmtRule_in_routingRules)
    with none e
    show "fmtRule pif protocol port (IP dbc) \<notin> set (routingRules pif ?containers ?connections)"
      by simp
  qed
  have 2: "containerTable = [\<lparr>IP = '''', Labels = [''web'']\<rparr>] \<longrightarrow>
            routingRules pif ?containers ?connections = []"
  proof
    assume t: "containerTable = [\<lparr>IP = '''', Labels = [''web'']\<rparr>]"
    then have "{dbc \<in> set containerTable. IP dbc \<noteq> ''''} = {}"
      by simp
    with sel[of "\<lambda>c. IP c \<noteq> ''''"] have "set ?containers = {}"
      by simp
    then have "?containers = []" by simp
    then show "routingRules pif ?containers ?connections = []"
      by (simp add: routingRules_def portsFromWeb_def)
  qed
  have 3: "MinionSelf conn = Inr minion \<and> SupervisorInit minion \<and> Role minion = Worker \<and>
          getPublicInterfaceImpl routeList linkByIndex = Inr pif \<and>
          setDefaultRules ipt pif w = (None, w1) \<longrightarrow>
            snd (runNatTick conn (Inr ipt) routeList linkByIndex w) =
            snd (syncChain ipt ''nat'' ''PREROUTING'' (routingRules pif ?containers ?connections) w1)"
    by (intro impI, elim conjE) (rule runNatTick_target)
  from 1 2 3 show ?thesis by (intro conjI)
qed

theorem runNat_excludes_empty_address_witness:
  "SelectFromContainer (workerDB [unscheduled, apiContainer] [webConnection]) (\<lambda>c. IP c \<noteq> '''') =
     [apiContainer]
   \<and> fmtRule ''eth0'' ''tcp'' 80 (IP unscheduled) \<notin>
       set (routingRules ''eth0''
              (SelectFromContainer (workerDB [unscheduled, apiContainer] [webConnection]) (\<lambda>c. IP c \<noteq> ''''))
              (SelectFromConnection (workerDB [unscheduled, apiContainer] [webConnection]) None))
   \<and> routingRules ''eth0''
        (SelectFromContainer (workerDB [unscheduled] [webConnection]) (\<lambda>c. IP c \<noteq> ''''))
        (SelectFromConnection (workerDB [unscheduled] [webConnection]) None) = []
   \<and> snd (runNatTick (workerDB [unscheduled] [webConnection]) (Inr fakeIPT) (Inr [firstDefault])
          hostLinks ([], noRules)) =
     snd (syncChain fakeIPT ''nat'' ''PREROUTING'' []
            ([(CallAppendUnique ''nat'' ''INPUT'' [''-j'', ''ACCEPT''], None),
              (CallAppendUnique ''nat'' ''OUTPUT'' [''-j'', ''ACCEPT''], None),
              (CallAppendUnique ''nat'' ''POSTROUTING''
                 [''-s'', ''10.0.0.0/8'', ''-o'', ''eth0'', ''-j'', ''MASQUERADE''], None)],
             [(''INPUT'', [''-j ACCEPT'']), (''OUTPUT'', [''-j ACCEPT'']),
              (''POSTROUTING'', [''-s 10.0.0.0/8 -o eth0 -j MASQUERADE''])]))"
proof -
  have sel: "set (SelectFromContainer (workerDB containerTable connectionTable) check)
      \<subseteq> {dbc \<in> set containerTable. check dbc}" for containerTable connectionTable check
    by (simp add: workerDB_def)
  have a: "SelectFromContainer (workerDB [unscheduled, apiContainer] [webConnection]) (\<lambda>c. IP c \<noteq> '''') =
     [apiContainer]"
    by (simp add: workerDB_def unscheduled_def apiContainer_def)
  have u: "IP unscheduled = ''''" by (simp add: unscheduled_def)
  from runNat_excludes_empty_address[of "workerDB [unscheduled, apiContainer] [webConnection]"
      "[unscheduled, apiContainer]" "''eth0''", OF sel, THEN conjunct1] u
  have b: "fmtRule ''eth0'' ''tcp'' 80 (IP unscheduled) \<notin>
       set (routingRules ''eth0''
              (SelectFromContainer (workerDB [unscheduled, apiContainer] [webConnection]) (\<lambda>c. IP c \<noteq> ''''))
              (SelectFromConnection (workerDB [unscheduled, apiContainer] [webConnection]) None))"
    by simp
  note t = runNat_excludes_empty_address[of "workerDB [unscheduled] [webConnection]"
      "[unscheduled]" "''eth0''", OF sel]
  from t[THEN conjunct2, THEN conjunct1]
  have c: "routingRules ''eth0''
        (SelectFromContainer (workerDB [unscheduled] [webConnection]) (\<lambda>c. IP c \<noteq> ''''))
        (SelectFromConnection (workerDB [unscheduled] [webConnection]) None) = []"
    by (simp add: unscheduled_def)
  have m: "MinionSelf (workerDB [unscheduled] [webConnection]) =
      Inr \<lparr>SupervisorInit = True, Role = Worker\<rparr>"
    by (simp add: workerDB_def)
  have g: "SupervisorInit \<lparr>SupervisorInit = True, Role = Worker\<rparr>"
    and r: "Role \<lparr>SupervisorInit = True, Role = Worker\<rparr> = Worker"
    by simp_all
  have p: "getPublicInterfaceImpl (Inr [firstDefault]) hostLinks = Inr ''eth0''"
    by code_simp
  have s: "setDefaultRules fakeIPT ''eth0'' ([], noRules) =
     (None,
      ([(CallAppendUnique ''nat'' ''INPUT'' [''-j'', ''ACCEPT''], None),
        (CallAppendUnique ''nat'' ''OUTPUT'' [''-j'', ''ACCEPT''], None),
        (CallAppendUnique ''nat'' ''POSTROUTING''
           [''-s'', ''10.0.0.0/8'', ''-o'', ''eth0'', ''-j'', ''MASQUERADE''], None)],
       [(''INPUT'', [''-j ACCEPT'']), (''OUTPUT'', [''-j ACCEPT'']),
        (''POSTROUTING'', [''-s 10.0.0.0/8 -o eth0 -j MASQUERADE''])]))"
    by code_simp
  note h = conjI[OF m conjI[OF g conjI[OF r conjI[OF p s]]]]
  from t[THEN conjunct2, THEN conjunct2, THEN mp, OF h]
  have d: "snd (runNatTick (workerDB [unscheduled] [webConnection]) (Inr fakeIPT) (Inr [firstDefault])
          hostLinks ([], noRules)) =
     snd (syncChain fakeIPT ''nat'' ''PREROUTING'' []
            ([(CallAppendUnique ''nat'' ''INPUT'' [''-j'', ''ACCEPT''], None),
              (CallAppendUnique ''nat'' ''OUTPUT'' [''-j'', ''ACCEPT''], None),
              (CallAppendUnique ''nat'' ''POSTROUTING''
                 [''-s'', ''10.0.0.0/8'', ''-o'', ''eth0'', ''-j'', ''MASQUERADE''], None)],
             [(''INPUT'', [''-j ACCEPT'']), (''OUTPUT'', [''-j ACCEPT'']),
              (''POSTROUTING'', [''-s 10.0.0.0/8 -o eth0 -j MASQUERADE''])]))"
    by (simp only: c)
  from a b c d show ?thesis by (intro conjI)
qed

section \<open>The edit script of syncChain\<close>















end
